theory Spec2Isabelle
  imports Complex_Main "HOL-Library.Sublist" "HOL-Library.Char_ord" "HOL-Library.List_Lexorder"
begin

section \<open>Python values\<close>

text \<open>
  Conventions of the embedding.
  \<^item> A Python \<open>str\<close> is a \<open>string\<close>; a \<open>char\<close> stands for a code point below 256.
  \<^item> A Python \<open>float\<close> is a \<open>real\<close>: only finite floats are modelled and arithmetic is
    exact. The one floating-point operation modelled with its rounding is the cast to
    \<open>float32\<close> in \<open>_vector_to_blob\<close>, which the embedding column goes through.
  \<^item> A \<open>datetime\<close> is an \<open>int\<close>: microseconds since the epoch, in UTC. The ISO-8601 text the
    tables hold is this number; texts with the same offset compare as their instants do.
  \<^item> A raised exception is \<open>Inl e\<close>; a method that mutates its object returns the new state
    next to its outcome, so that a raise after a commit keeps what was committed.
  \<^item> The clock (\<open>_utc_now\<close>) and the failures of the database are parameters.
\<close>

datatype error = ValueError | NotImplementedError | DatabaseError

definition is_space :: "char \<Rightarrow> bool" where
  \<comment> \<open>\<open>str.isspace\<close> and the regex class \<open>\s\<close>, below code point 256\<close>
  "is_space c \<longleftrightarrow> c \<in> {CHR 0x09, CHR 0x0A, CHR 0x0B, CHR 0x0C, CHR 0x0D, CHR 0x1C, CHR 0x1D,
      CHR 0x1E, CHR 0x1F, CHR 0x20, CHR 0x85, CHR 0xA0}"

definition strip :: "string \<Rightarrow> string" where
  \<comment> \<open>\<open>str.strip()\<close>\<close>
  "strip s = rev (dropWhile is_space (rev (dropWhile is_space s)))"


definition sorted_desc :: "('a \<Rightarrow> real) \<Rightarrow> 'a list \<Rightarrow> 'a list" where
  \<comment> \<open>\<open>sorted(xs, key=key, reverse=True)\<close>: stable, equal keys keep their order\<close>
  "sorted_desc key xs = sort_key (\<lambda>x. - key x) xs"

fun dict_set :: "('k \<times> 'v) list \<Rightarrow> 'k \<Rightarrow> 'v \<Rightarrow> ('k \<times> 'v) list" where
  \<comment> \<open>\<open>d[k] = v\<close> on an insertion-ordered dict\<close>
  "dict_set [] k v = [(k, v)]"
| "dict_set ((k', v') # d) k v = (if k' = k then (k, v) # d else (k', v') # dict_set d k v)"

definition dict_of :: "('k \<times> 'v) list \<Rightarrow> ('k \<times> 'v) list" where
  \<comment> \<open>a dict comprehension over the pairs, in their order\<close>
  "dict_of kvs = foldl (\<lambda>d (k, v). dict_set d k v) [] kvs"

fun mapM :: "('a \<Rightarrow> error + 'b) \<Rightarrow> 'a list \<Rightarrow> error + 'b list" where
  \<comment> \<open>a list comprehension whose body may raise\<close>
  "mapM f [] = Inr []"
| "mapM f (x # xs) =
     (case f x of Inl e \<Rightarrow> Inl e
      | Inr y \<Rightarrow> (case mapM f xs of Inl e \<Rightarrow> Inl e | Inr ys \<Rightarrow> Inr (y # ys)))"

section \<open>models.py\<close>

record thought =
  tid :: string
  timestamp_utc :: int
  session_id :: string
  category :: string
  confidence :: real
  tags :: "string list"
  raw_text :: string
  cleaned_text :: string
  embedding_vector :: "real list"
  embedding_dim :: int

definition Thought :: "thought \<Rightarrow> int option \<Rightarrow> error + thought" where
  \<comment> \<open>the constructor: \<open>str_strip_whitespace\<close>, the field constraints, then
      \<open>_validate_embedding\<close>; the second argument is the \<open>embedding_dim\<close> passed in\<close>
  "Thought t edim =
     (let t' = t\<lparr>tid := strip (tid t), session_id := strip (session_id t),
                 category := strip (category t), tags := map strip (tags t),
                 raw_text := strip (raw_text t), cleaned_text := strip (cleaned_text t),
                 embedding_dim := (case edim of None \<Rightarrow> int (length (embedding_vector t)) | Some d \<Rightarrow> d)\<rparr>
      in if session_id t' = [] \<or> category t' = [] \<or> confidence t' < 0 \<or> 1 < confidence t'
            \<or> raw_text t' = [] \<or> cleaned_text t' = [] \<or> embedding_vector t' = []
         then Inl ValueError
         else if embedding_dim t' \<le> 0 then Inl ValueError
         else if int (length (embedding_vector t')) \<noteq> embedding_dim t' then Inl ValueError
         else Inr t')"

definition valid_thought :: "thought \<Rightarrow> bool" where
  \<comment> \<open>a \<open>Thought\<close> object: what the constructor returns, it returns unchanged\<close>
  "valid_thought t \<longleftrightarrow> Thought t (Some (embedding_dim t)) = Inr t"

record filters =
  f_session_id :: "string option"
  f_category :: "string option"
  min_confidence :: "real option"
  start_time_utc :: "int option"
  end_time_utc :: "int option"
  tags_any :: "string list option"

definition no_filters :: filters where
  \<comment> \<open>\<open>ThoughtFilters()\<close>\<close>
  "no_filters = \<lparr>f_session_id = None, f_category = None, min_confidence = None,
     start_time_utc = None, end_time_utc = None, tags_any = None\<rparr>"

record scored_thought =
  thought :: thought
  semantic_score :: real
  recency_score :: real
  score :: real

section \<open>store.py\<close>

subsection \<open>Embedding blobs\<close>

definition round_half_even :: "real \<Rightarrow> int" where
  "round_half_even r =
     (let f = \<lfloor>r\<rfloor>; d = r - of_int f
      in if d < 1 / 2 then f else if 1 / 2 < d then f + 1 else if even f then f else f + 1)"

definition to_float32 :: "real \<Rightarrow> real" where
  \<comment> \<open>\<open>np.float32(x)\<close> for a finite \<open>x\<close>: the nearest multiple of the unit in the last place of
      a 24-bit significand, ties to even, with the gradual underflow below \<open>2 powr -126\<close>.
      A magnitude that rounds to \<open>2 powr 128\<close> or more is infinite in numpy and outside the
      model: see \<open>float32_range\<close>.\<close>
  "to_float32 x =
     (if x = 0 then 0
      else let e = max \<lfloor>log 2 \<bar>x\<bar>\<rfloor> (- 126); u = 2 powr (of_int (e - 23))
           in of_int (round_half_even (x / u)) * u)"

definition float32_range :: "real \<Rightarrow> bool" where
  \<comment> \<open>the magnitudes whose cast to \<open>float32\<close> stays finite\<close>
  "float32_range x \<longleftrightarrow> \<bar>x\<bar> < (2 - 1 / 2 ^ 24) * 2 ^ 127"

definition is_float32 :: "real \<Rightarrow> bool" where
  \<comment> \<open>the finite values of \<open>float32\<close>: a significand of at most 24 bits at an exponent the
      format has\<close>
  "is_float32 x \<longleftrightarrow> (\<exists>m e::int. \<bar>m\<bar> < 2 ^ 24 \<and> - 149 \<le> e \<and> e \<le> 104 \<and> x = of_int m * 2 powr (of_int e))"

definition vector_to_blob :: "real list \<Rightarrow> real list" where
  \<comment> \<open>\<open>_vector_to_blob\<close>; a blob is the list of the \<open>float32\<close> values its bytes encode\<close>
  "vector_to_blob v = map to_float32 v"

definition blob_to_vector :: "real list \<Rightarrow> int \<Rightarrow> error + real list" where
  "blob_to_vector blob edim = (if int (length blob) \<noteq> edim then Inl ValueError else Inr blob)"

subsection \<open>The vector index\<close>

definition l2_norm :: "real list \<Rightarrow> real" where
  "l2_norm v = sqrt (sum_list (map (\<lambda>x. x * x) v))"

definition normalize_l2 :: "real list \<Rightarrow> real list" where
  \<comment> \<open>\<open>_normalize\<close>\<close>
  "normalize_l2 v = (if l2_norm v = 0 then v else map (\<lambda>x. x / l2_norm v) v)"

definition dot :: "real list \<Rightarrow> real list \<Rightarrow> real" where
  "dot v w = sum_list (map2 (*) v w)"

datatype backend = Numpy | Faiss

type_synonym vindex = "(string \<times> real list) list"
  \<comment> \<open>the rows \<open>_matrix[:_size]\<close> next to \<open>_ids\<close>; the capacity is not observable\<close>

definition index_build :: "int \<Rightarrow> (string \<times> real list) list \<Rightarrow> error + vindex" where
  \<comment> \<open>\<open>build\<close> of both backends: the vectors are cast to \<open>float32\<close>, then normalized\<close>
  "index_build edim items =
     (if items = [] then Inr []
      else if \<exists>item \<in> set items. int (length (snd item)) \<noteq> edim then Inl ValueError
      else Inr (map (\<lambda>item. (fst item, normalize_l2 (map to_float32 (snd item)))) items))"

definition index_upsert :: "int \<Rightarrow> vindex \<Rightarrow> string \<Rightarrow> real list \<Rightarrow> error + vindex" where
  \<comment> \<open>\<open>_NumpyVectorBackend.upsert\<close>: \<open>_normalize(np.asarray(vector, dtype=np.float32))\<close>\<close>
  "index_upsert edim idx i v =
     (if int (length v) \<noteq> edim then Inl ValueError
      else if i \<in> fst ` set idx
        then Inr (map (\<lambda>entry. if fst entry = i then (i, normalize_l2 (map to_float32 v)) else entry) idx)
      else Inr (idx @ [(i, normalize_l2 (map to_float32 v))]))"

definition index_search :: "int \<Rightarrow> vindex \<Rightarrow> real list \<Rightarrow> int \<Rightarrow> error + (string \<times> real) list" where
  \<comment> \<open>\<open>search\<close> of both backends: inner products with the query, cast to \<open>float32\<close> and
      normalized, best first. Entries of equal score come in the order of the index (numpy
      leaves it open).\<close>
  "index_search edim idx q top_k =
     (if idx = [] then Inr []
      else if int (length q) \<noteq> edim then Inl ValueError
      else let scores = map (\<lambda>entry. (fst entry, dot (snd entry) (normalize_l2 (map to_float32 q)))) idx;
               k = max 1 (min top_k (int (length idx)))
           in Inr (take (nat k) (sorted_desc snd scores)))"

subsection \<open>The tables\<close>

record row =
  r_id :: string
  r_timestamp_utc :: int
  r_session_id :: string
  r_category :: string
  r_confidence :: real
  r_tags_json :: "string list"
  r_raw_text :: string
  r_cleaned_text :: string
  r_embedding_dim :: int
  r_embedding_blob :: "real list"

record store =
  store_dim :: int
  vector_backend :: backend
  sessions :: "(string \<times> string option) list"
  thoughts :: "row list"
  vindex :: vindex

text \<open>
  \<open>sessions\<close> holds \<open>(session_id, parent_session_id)\<close> and \<open>thoughts\<close> the rows in the order of
  their insertion; \<open>created_at_utc\<close>, the metadata and \<open>payload_json\<close> are written and never
  read back, and are left out.
\<close>

definition thought_row :: "thought \<Rightarrow> row" where
  \<comment> \<open>the parameters of the \<open>INSERT INTO thoughts\<close> of \<open>batch_store\<close>\<close>
  "thought_row t = \<lparr>r_id = tid t, r_timestamp_utc = timestamp_utc t, r_session_id = session_id t,
     r_category = category t, r_confidence = confidence t, r_tags_json = tags t,
     r_raw_text = raw_text t, r_cleaned_text = cleaned_text t,
     r_embedding_dim = embedding_dim t, r_embedding_blob = vector_to_blob (embedding_vector t)\<rparr>"

definition row_to_thought :: "row \<Rightarrow> error + thought" where
  \<comment> \<open>\<open>_row_to_thought\<close>\<close>
  "row_to_thought r =
     (case blob_to_vector (r_embedding_blob r) (r_embedding_dim r) of
        Inl e \<Rightarrow> Inl e
      | Inr v \<Rightarrow> Thought \<lparr>tid = r_id r, timestamp_utc = r_timestamp_utc r,
                 session_id = r_session_id r, category = r_category r,
                 confidence = r_confidence r, tags = r_tags_json r, raw_text = r_raw_text r,
                 cleaned_text = r_cleaned_text r, embedding_vector = v,
                 embedding_dim = r_embedding_dim r\<rparr> (Some (r_embedding_dim r)))"

definition insert_session :: "(string \<times> string option) list \<Rightarrow> string \<Rightarrow> (string \<times> string option) list" where
  \<comment> \<open>\<open>INSERT INTO sessions ... VALUES (?, NULL, ...) ON CONFLICT(session_id) DO NOTHING\<close>\<close>
  "insert_session ss sid = (if sid \<in> fst ` set ss then ss else ss @ [(sid, None)])"

definition upsert_row :: "row list \<Rightarrow> row \<Rightarrow> row list" where
  \<comment> \<open>\<open>INSERT INTO thoughts ... ON CONFLICT(id) DO UPDATE SET ...\<close>\<close>
  "upsert_row rs r =
     (if r_id r \<in> r_id ` set rs then map (\<lambda>r'. if r_id r' = r_id r then r else r') rs
      else rs @ [r])"

definition create_session :: "store \<Rightarrow> string \<Rightarrow> string option \<Rightarrow> store \<times> (error + unit)" where
  "create_session s sid parent =
     (if strip sid = [] then (s, Inl ValueError)
      else let ss = (case parent of
                       None \<Rightarrow> sessions s
                     | Some p \<Rightarrow> if strip p \<noteq> [] then insert_session (sessions s) p else sessions s)
           in (s\<lparr>sessions := dict_set ss sid parent\<rparr>, Inr ()))"






definition rebuild_vector_index :: "store \<Rightarrow> store \<times> (error + unit)" where
  \<comment> \<open>\<open>_rebuild_vector_index_locked\<close>; a \<open>build\<close> that raises has reset the index\<close>
  "rebuild_vector_index s =
     (case mapM (\<lambda>r. case blob_to_vector (r_embedding_blob r) (r_embedding_dim r) of
                        Inl e \<Rightarrow> Inl e | Inr v \<Rightarrow> Inr (r_id r, v)) (thoughts s) of
        Inl e \<Rightarrow> (s, Inl e)
      | Inr items \<Rightarrow> (case index_build (store_dim s) items of
                        Inl e \<Rightarrow> (s\<lparr>vindex := []\<rparr>, Inl e)
                      | Inr idx \<Rightarrow> (s\<lparr>vindex := idx\<rparr>, Inr ())))"

fun insert_thoughts ::
  "nat option \<Rightarrow> nat \<Rightarrow> (string \<times> string option) list \<times> row list \<Rightarrow> thought list
     \<Rightarrow> error + (string \<times> string option) list \<times> row list" where
  \<comment> \<open>the loop inside the transaction of \<open>batch_store\<close>. \<open>fault = Some k\<close>: the database
      raises at the insert of the thought at position \<open>k\<close> of the batch.\<close>
  "insert_thoughts fault k tabs [] = Inr tabs"
| "insert_thoughts fault k tabs (t # ts) =
     (if fault = Some k then Inl DatabaseError
      else insert_thoughts fault (Suc k)
             (insert_session (fst tabs) (session_id t), upsert_row (snd tabs) (thought_row t)) ts)"

fun upsert_all :: "int \<Rightarrow> vindex \<Rightarrow> thought list \<Rightarrow> vindex \<times> (error + unit)" where
  \<comment> \<open>\<open>for thought in thoughts_list: self._vector_backend.upsert(...)\<close>\<close>
  "upsert_all edim idx [] = (idx, Inr ())"
| "upsert_all edim idx (t # ts) =
     (case index_upsert edim idx (tid t) (embedding_vector t) of
        Inl e \<Rightarrow> (idx, Inl e)
      | Inr idx' \<Rightarrow> upsert_all edim idx' ts)"

definition batch_store :: "nat option \<Rightarrow> store \<Rightarrow> thought list \<Rightarrow> store \<times> (error + thought list)" where
  "batch_store fault s ts =
     (if ts = [] then (s, Inr [])
      else if \<exists>t \<in> set ts. embedding_dim t \<noteq> store_dim s then (s, Inl ValueError)
      else case insert_thoughts fault 0 (sessions s, thoughts s) ts of
             Inl e \<Rightarrow> (s, Inl e)
           | Inr tabs \<Rightarrow>
               let s' = s\<lparr>sessions := fst tabs, thoughts := snd tabs\<rparr>
               in (case vector_backend s of
                     Numpy \<Rightarrow> (case upsert_all (store_dim s) (vindex s') ts of
                                 (idx, Inl e) \<Rightarrow> (s'\<lparr>vindex := idx\<rparr>, Inl e)
                               | (idx, Inr _) \<Rightarrow> (s'\<lparr>vindex := idx\<rparr>, Inr ts))
                   | Faiss \<Rightarrow> (case rebuild_vector_index s' of
                                 (s'', Inl e) \<Rightarrow> (s'', Inl e)
                               | (s'', Inr _) \<Rightarrow> (s'', Inr ts))))"

definition store_thought :: "nat option \<Rightarrow> store \<Rightarrow> thought \<Rightarrow> store \<times> (error + thought)" where
  \<comment> \<open>\<open>ThoughtStore.store\<close>: \<open>self.batch_store([thought])[0]\<close>\<close>
  "store_thought fault s t =
     (case batch_store fault s [t] of
        (s', Inl e) \<Rightarrow> (s', Inl e)
      | (s', Inr out) \<Rightarrow> (s', Inr (hd out)))"

definition get_thought_by_id :: "store \<Rightarrow> string \<Rightarrow> error + thought option" where
  "get_thought_by_id s i =
     (case find (\<lambda>r. r_id r = i) (thoughts s) of
        None \<Rightarrow> Inr None
      | Some r \<Rightarrow> (case row_to_thought r of Inl e \<Rightarrow> Inl e | Inr t \<Rightarrow> Inr (Some t)))"

definition sql_where :: "filters \<Rightarrow> row \<Rightarrow> bool" where
  \<comment> \<open>the \<open>WHERE\<close> clauses that \<open>_query_rows_locked\<close> builds\<close>
  "sql_where f r \<longleftrightarrow>
     (case f_session_id f of None \<Rightarrow> True | Some x \<Rightarrow> r_session_id r = x) \<and>
     (case f_category f of None \<Rightarrow> True | Some x \<Rightarrow> r_category r = x) \<and>
     (case min_confidence f of None \<Rightarrow> True | Some x \<Rightarrow> x \<le> r_confidence r) \<and>
     (case start_time_utc f of None \<Rightarrow> True | Some x \<Rightarrow> x \<le> r_timestamp_utc r) \<and>
     (case end_time_utc f of None \<Rightarrow> True | Some x \<Rightarrow> r_timestamp_utc r \<le> x)"

definition tags_match :: "filters \<Rightarrow> row \<Rightarrow> bool" where
  \<comment> \<open>\<open>if filters.tags_any:\<close> keep the rows whose tags meet \<open>tags_any\<close>\<close>
  "tags_match f r \<longleftrightarrow>
     (case tags_any f of
        None \<Rightarrow> True
      | Some ts \<Rightarrow> ts = [] \<or> set ts \<inter> set (r_tags_json r) \<noteq> {})"

definition query_rows :: "store \<Rightarrow> filters \<Rightarrow> int \<Rightarrow> row list" where
  \<comment> \<open>\<open>_query_rows_locked\<close>: \<open>ORDER BY timestamp_utc DESC LIMIT max(1, limit)\<close>, then the
      tag filter. Rows of equal time come in the order of the table (SQL leaves it open).\<close>
  "query_rows s f limit =
     filter (tags_match f)
       (take (nat (max 1 limit))
          (sort_key (\<lambda>r. - r_timestamp_utc r) (filter (sql_where f) (thoughts s))))"

definition retrieve :: "store \<Rightarrow> filters \<Rightarrow> int \<Rightarrow> error + thought list" where
  "retrieve s f limit = mapM row_to_thought (query_rows s f limit)"

definition fetch_rows_by_ids :: "store \<Rightarrow> string list \<Rightarrow> row list" where
  \<comment> \<open>\<open>_fetch_rows_by_ids_locked\<close>: \<open>SELECT * FROM thoughts WHERE id IN (...)\<close>. SQLite answers
      it through the index of the primary key \<open>id\<close>, so the rows come by ascending \<open>id\<close> (the
      byte order of the \<open>BINARY\<close> collation), whatever the order of \<open>ids\<close> and of the table\<close>
  "fetch_rows_by_ids s ids =
     (if ids = [] then [] else sort_key r_id (filter (\<lambda>r. r_id r \<in> set ids) (thoughts s)))"

definition row_matches_filters :: "filters \<Rightarrow> row \<Rightarrow> bool" where
  \<comment> \<open>\<open>_row_matches_filters\<close>\<close>
  "row_matches_filters f r \<longleftrightarrow> sql_where f r \<and> tags_match f r"

definition search_candidates :: "store \<Rightarrow> real list \<Rightarrow> int \<Rightarrow> int \<Rightarrow> error + (string \<times> real) list" where
  \<comment> \<open>\<open>self._vector_backend.search(query_vector, top_k=max(limit * 10, min(max_candidates, 1000)))\<close>\<close>
  "search_candidates s q limit max_candidates =
     index_search (store_dim s) (vindex s) q (max (limit * 10) (min max_candidates 1000))"

definition surviving_rows :: "store \<Rightarrow> filters \<Rightarrow> (string \<times> real) list \<Rightarrow> row list" where
  \<comment> \<open>\<open>filtered_rows\<close>: the candidates, fetched as rows, that pass the filters\<close>
  "surviving_rows s f candidates =
     filter (row_matches_filters f) (fetch_rows_by_ids s (map fst (dict_of candidates)))"

definition age_of :: "int \<Rightarrow> int \<Rightarrow> real" where
  \<comment> \<open>\<open>max(0.0, (now - timestamp).total_seconds())\<close>\<close>
  "age_of now ts = max 0 (real_of_int (now - ts) / 1000000)"

definition max_age :: "int \<Rightarrow> row list \<Rightarrow> real" where
  "max_age now rows = foldl max 1 (map (\<lambda>r. age_of now (r_timestamp_utc r)) rows)"

definition score_row :: "real \<Rightarrow> int \<Rightarrow> real \<Rightarrow> (string \<times> real) list \<Rightarrow> row \<Rightarrow> error + scored_thought" where
  \<comment> \<open>the body of the scoring loop of \<open>semantic_search\<close>\<close>
  "score_row alpha now mx id_to_score r =
     (let sem = (case map_of id_to_score (r_id r) of None \<Rightarrow> - 1 | Some x \<Rightarrow> x);
          rec = 1 - age_of now (r_timestamp_utc r) / mx
      in case row_to_thought r of
           Inl e \<Rightarrow> Inl e
         | Inr t \<Rightarrow> Inr \<lparr>thought = t, semantic_score = sem, recency_score = rec,
                         score = alpha * sem + (1 - alpha) * rec\<rparr>)"

definition scored_rows ::
  "store \<Rightarrow> int \<Rightarrow> filters \<Rightarrow> real \<Rightarrow> (string \<times> real) list \<Rightarrow> error + scored_thought list" where
  \<comment> \<open>the list \<open>scored\<close> before it is sorted\<close>
  "scored_rows s now f alpha candidates =
     (let rows = surviving_rows s f candidates
      in mapM (score_row alpha now (max_age now rows) (dict_of candidates)) rows)"

definition semantic_search ::
  "store \<Rightarrow> int \<Rightarrow> real list \<Rightarrow> filters \<Rightarrow> int \<Rightarrow> real \<Rightarrow> int \<Rightarrow> error + scored_thought list" where
  "semantic_search s now q f limit alpha max_candidates =
     (if \<not> (0 \<le> alpha \<and> alpha \<le> 1) then Inl ValueError
      else case search_candidates s q limit max_candidates of
             Inl e \<Rightarrow> Inl e
           | Inr candidates \<Rightarrow>
               if candidates = [] then Inr []
               else if surviving_rows s f candidates = [] then Inr []
               else (case scored_rows s now f alpha candidates of
                       Inl e \<Rightarrow> Inl e
                     | Inr scored \<Rightarrow> Inr (take (nat (max 1 limit)) (sorted_desc score scored))))"

section \<open>Facts about the store\<close>

lemma round_half_even_of_int: "round_half_even (of_int n) = n"
  by (simp add: round_half_even_def Let_def)

lemma t1 [simp]: "to_float32 0 = 0" by (simp add: to_float32_def)

lemma t2 [simp]: "to_float32 1 = 1"
proof -
  have "round_half_even (2 ^ 23) = 2 ^ 23"
    by (simp add: round_half_even_def Let_def)
  moreover have "(1::real) / 2 powr (- 23) = 2 ^ 23"
    by (simp add: powr_minus_divide)
  moreover have "(2::real) ^ 23 * 2 powr (- 23) = 1"
    by (simp add: powr_minus_divide)
  ultimately show ?thesis
    by (simp add: to_float32_def Let_def)
qed

lemma t3 [simp]: "to_float32 (- 1) = - 1"
proof -
  have "round_half_even (- (2 ^ 23)) = - (2 ^ 23)"
    using round_half_even_of_int [of "- (2 ^ 23)"] by simp
  moreover have "(1::real) / 2 powr (- 23) = 2 ^ 23"
    by (simp add: powr_minus_divide)
  moreover have "(2::real) ^ 23 * 2 powr (- 23) = 1"
    by (simp add: powr_minus_divide)
  ultimately show ?thesis
    by (simp add: to_float32_def Let_def)
qed

lemma valid_thoughtD:
  assumes "valid_thought t"
  shows "strip (tid t) = tid t" "strip (session_id t) = session_id t" "strip (category t) = category t"
    "map strip (tags t) = tags t" "strip (raw_text t) = raw_text t" "strip (cleaned_text t) = cleaned_text t"
    "session_id t \<noteq> []" "category t \<noteq> []" "0 \<le> confidence t" "confidence t \<le> 1"
    "raw_text t \<noteq> []" "cleaned_text t \<noteq> []" "embedding_vector t \<noteq> []"
    "int (length (embedding_vector t)) = embedding_dim t"
proof -
  let ?t' = "t\<lparr>tid := strip (tid t), session_id := strip (session_id t),
                 category := strip (category t), tags := map strip (tags t),
                 raw_text := strip (raw_text t), cleaned_text := strip (cleaned_text t),
                 embedding_dim := embedding_dim t\<rparr>"
  from assms have eq: "?t' = t" and c: "\<not> (session_id ?t' = [] \<or> category ?t' = [] \<or> confidence ?t' < 0 \<or> 1 < confidence ?t'
            \<or> raw_text ?t' = [] \<or> cleaned_text ?t' = [] \<or> embedding_vector ?t' = [])"
     "int (length (embedding_vector ?t')) = embedding_dim ?t'"
    unfolding valid_thought_def Thought_def Let_def by (auto split: if_splits)
  from arg_cong [OF eq, of tid] show "strip (tid t) = tid t" by simp
  from arg_cong [OF eq, of session_id] show s: "strip (session_id t) = session_id t" by simp
  from arg_cong [OF eq, of category] show ct: "strip (category t) = category t" by simp
  from arg_cong [OF eq, of tags] show "map strip (tags t) = tags t" by simp
  from arg_cong [OF eq, of raw_text] show r: "strip (raw_text t) = raw_text t" by simp
  from arg_cong [OF eq, of cleaned_text] show cl: "strip (cleaned_text t) = cleaned_text t" by simp
  from c s ct r cl show "session_id t \<noteq> []" "category t \<noteq> []" "0 \<le> confidence t" "confidence t \<le> 1"
    "raw_text t \<noteq> []" "cleaned_text t \<noteq> []" "embedding_vector t \<noteq> []"
    "int (length (embedding_vector t)) = embedding_dim t" by auto
qed

lemma valid_thoughtI:
  assumes "strip (tid t) = tid t" "strip (session_id t) = session_id t" "strip (category t) = category t"
    "map strip (tags t) = tags t" "strip (raw_text t) = raw_text t" "strip (cleaned_text t) = cleaned_text t"
    "session_id t \<noteq> []" "category t \<noteq> []" "0 \<le> confidence t" "confidence t \<le> 1"
    "raw_text t \<noteq> []" "cleaned_text t \<noteq> []" "embedding_vector t \<noteq> []"
    "int (length (embedding_vector t)) = embedding_dim t"
  shows "valid_thought t"
proof -
  from assms(13,14) have "0 < embedding_dim t" by (cases "embedding_vector t") auto
  with assms show ?thesis unfolding valid_thought_def Thought_def Let_def by auto
qed

definition persisted :: "thought \<Rightarrow> thought" where
  \<comment> \<open>a thought as it reads back from its row: the embedding has been through \<open>float32\<close>\<close>
  "persisted t = t\<lparr>embedding_vector := vector_to_blob (embedding_vector t)\<rparr>"

lemma row_to_thought_row:
  assumes "valid_thought t"
  shows "row_to_thought (thought_row t) = Inr (persisted t)"
proof -
  note d = valid_thoughtD [OF assms]
  have v: "valid_thought (persisted t)"
    by (rule valid_thoughtI) (use d in \<open>simp_all add: persisted_def vector_to_blob_def\<close>)
  have lit: "\<lparr>tid = tid t, timestamp_utc = timestamp_utc t,
                 session_id = session_id t, category = category t,
                 confidence = confidence t, tags = tags t, raw_text = raw_text t,
                 cleaned_text = cleaned_text t, embedding_vector = vector_to_blob (embedding_vector t),
                 embedding_dim = embedding_dim t\<rparr> = persisted t"
    by (simp add: persisted_def)
  have len: "int (length (vector_to_blob (embedding_vector t))) = embedding_dim t"
    using d(14) by (simp add: vector_to_blob_def)
  have "row_to_thought (thought_row t) = Thought (persisted t) (Some (embedding_dim t))"
    unfolding row_to_thought_def blob_to_vector_def
    by (simp add: thought_row_def len lit)
  also have "\<dots> = Inr (persisted t)"
    using v by (simp add: valid_thought_def persisted_def)
  finally show ?thesis .
qed


definition row_ok :: "int \<Rightarrow> row \<Rightarrow> bool" where
  \<comment> \<open>a row that \<open>batch_store\<close> can have written: of the store's dimension, and
      \<open>_row_to_thought\<close> reads it back under its own id\<close>
  "row_ok edim r \<longleftrightarrow>
     r_embedding_dim r = edim \<and> (case row_to_thought r of Inl e \<Rightarrow> False | Inr t \<Rightarrow> tid t = r_id r)"

definition store_ok :: "store \<Rightarrow> bool" where
  "store_ok s \<longleftrightarrow> (\<forall>r \<in> set (thoughts s). row_ok (store_dim s) r)"

lemma insert_thoughts_fail:
  "insert_thoughts fault k tabs ts = Inl e \<longleftrightarrow> e = DatabaseError \<and> (\<exists>j < length ts. fault = Some (k + j))"
proof (induction ts arbitrary: k tabs)
  case Nil
  then show ?case by simp
next
  case (Cons t ts)
  show ?case
  proof (cases "fault = Some k")
    case True
    then show ?thesis by auto
  next
    case False
    have "(\<exists>j<length (t # ts). fault = Some (k + j)) \<longleftrightarrow> (\<exists>j<length ts. fault = Some (Suc k + j))"
      using False by (auto simp: less_Suc_eq_0_disj)
    with False Cons.IH show ?thesis by simp
  qed
qed

lemma insert_thoughts_ok:
  "insert_thoughts fault k tabs ts = Inr tabs' \<Longrightarrow>
     tabs' = (foldl insert_session (fst tabs) (map session_id ts),
              foldl upsert_row (snd tabs) (map thought_row ts))"
  by (induction ts arbitrary: k tabs) (auto split: if_splits)

lemma find_append_case:
  "find P (xs @ ys) = (case find P xs of None \<Rightarrow> find P ys | Some x \<Rightarrow> Some x)"
  by (induction xs) auto

lemma find_upsert_row:
  "find (\<lambda>r. r_id r = i) (upsert_row rs r) = (if r_id r = i then Some r else find (\<lambda>r. r_id r = i) rs)"
proof -
  have a: "find (\<lambda>r. r_id r = i) (map (\<lambda>r'. if r_id r' = r_id r then r else r') rs)
        = (if r_id r = i then (if r_id r \<in> r_id ` set rs then Some r else None) else find (\<lambda>r. r_id r = i) rs)"
    by (induction rs) auto
  have b: "r_id r \<notin> r_id ` set rs \<Longrightarrow> r_id r = i \<Longrightarrow> find (\<lambda>r. r_id r = i) rs = None"
    by (induction rs) auto
  show ?thesis
    unfolding upsert_row_def using a b by (auto simp: find_append_case split: option.splits)
qed

lemma find_foldl_upsert:
  "find (\<lambda>r. r_id r = i) (foldl upsert_row rs rows) =
     (case find (\<lambda>r. r_id r = i) (rev rows) of Some r \<Rightarrow> Some r | None \<Rightarrow> find (\<lambda>r. r_id r = i) rs)"
proof (induction rows arbitrary: rs)
  case Nil
  then show ?case by simp
next
  case (Cons r rows)
  show ?case
    by (simp add: Cons.IH find_upsert_row find_append_case split: option.splits)
qed

lemma find_rev_last:
  assumes "t \<in> set ts"
  shows "find (\<lambda>r. r_id r = tid t) (rev (map thought_row ts))
         = Some (thought_row (last (filter (\<lambda>u. tid u = tid t) ts)))"
  using assms
proof (induction ts rule: rev_induct)
  case Nil
  then show ?case by simp
next
  case (snoc x xs)
  then show ?case by (auto simp: thought_row_def)
qed

lemma index_upsert_ok:
  assumes "int (length v) = edim"
  shows "\<exists>idx1. index_upsert edim idx i v = Inr idx1 \<and> fst ` set idx1 = insert i (fst ` set idx)"
proof (cases "i \<in> fst ` set idx")
  case True
  have "fst ` set (map (\<lambda>entry. if fst entry = i then (i, normalize_l2 (map to_float32 v)) else entry) idx)
        = fst ` set idx"
    by (induction idx) auto
  with True assms show ?thesis by (auto simp: index_upsert_def)
next
  case False
  with assms show ?thesis by (auto simp: index_upsert_def)
qed

lemma upsert_all_ok:
  assumes "\<forall>t \<in> set ts. int (length (embedding_vector t)) = edim"
  shows "\<exists>idx'. upsert_all edim idx ts = (idx', Inr ()) \<and> fst ` set idx' = fst ` set idx \<union> tid ` set ts"
  using assms
proof (induction ts arbitrary: idx)
  case Nil
  then show ?case by simp
next
  case (Cons t ts)
  obtain idx1 where u: "index_upsert edim idx (tid t) (embedding_vector t) = Inr idx1"
    and f: "fst ` set idx1 = insert (tid t) (fst ` set idx)"
    using Cons.prems index_upsert_ok [of "embedding_vector t" edim idx "tid t"] by auto
  from Cons.IH [of idx1] Cons.prems obtain idx' where
    "upsert_all edim idx1 ts = (idx', Inr ())" "fst ` set idx' = fst ` set idx1 \<union> tid ` set ts"
    by auto
  with u f show ?case by auto
qed

definition empty_store :: "int \<Rightarrow> backend \<Rightarrow> store" where
  \<comment> \<open>\<open>ThoughtStore(embedding_dim=edim, vector_backend=b)\<close> on a new database\<close>
  "empty_store edim b = \<lparr>store_dim = edim, vector_backend = b, sessions = [], thoughts = [], vindex = []\<rparr>"

definition mk_thought :: "string \<Rightarrow> int \<Rightarrow> string \<Rightarrow> string list \<Rightarrow> real list \<Rightarrow> thought" where
  \<comment> \<open>the thoughts of the examples: those of \<open>tests/test_tms_core.py\<close>, with an id, a time,
      a session, tags and a vector of one's choice\<close>
  "mk_thought i ts sess tgs v = \<lparr>tid = i, timestamp_utc = ts, session_id = sess, category = ''reasoning'',
     confidence = 8 / 10, tags = tgs, raw_text = ''a'', cleaned_text = ''a'',
     embedding_vector = v, embedding_dim = int (length v)\<rparr>"

lemma set_upsert_row: "set (upsert_row rs r) \<subseteq> insert r (set rs)"
  by (auto simp: upsert_row_def)

lemma set_foldl_upsert_row: "set (foldl upsert_row rs rows) \<subseteq> set rs \<union> set rows"
proof (induction rows arbitrary: rs)
  case Nil
  then show ?case by simp
next
  case (Cons r rows)
  from Cons.IH [of "upsert_row rs r"] set_upsert_row [of rs r] show ?case by auto
qed

lemma thoughts_length_foldl: "length rs \<le> length (foldl upsert_row rs rows)"
proof (induction rows arbitrary: rs)
  case Nil
  then show ?case by simp
next
  case (Cons r rows)
  have "length rs \<le> length (upsert_row rs r)" by (simp add: upsert_row_def)
  with Cons.IH [of "upsert_row rs r"] show ?case by simp
qed

lemma mapM_ok:
  assumes "\<forall>x \<in> set xs. \<exists>y. f x = Inr y"
  shows "\<exists>ys. mapM f xs = Inr ys \<and> length ys = length xs \<and> (\<forall>x \<in> set xs. \<forall>y. f x = Inr y \<longrightarrow> y \<in> set ys)"
  using assms
proof (induction xs)
  case Nil
  then show ?case by simp
next
  case (Cons x xs)
  then obtain y where y: "f x = Inr y" by auto
  from Cons obtain ys where "mapM f xs = Inr ys" "length ys = length xs"
    "\<forall>x \<in> set xs. \<forall>y. f x = Inr y \<longrightarrow> y \<in> set ys" by auto
  with y show ?case by auto
qed

lemma row_ok_thought_row:
  assumes "valid_thought t" "embedding_dim t = edim"
  shows "row_ok edim (thought_row t)"
  using assms row_to_thought_row [of t] by (simp add: row_ok_def thought_row_def persisted_def)

lemma store_ok_rows:
  assumes "store_ok s" "\<forall>t \<in> set ts. valid_thought t \<and> embedding_dim t = store_dim s"
  shows "store_ok (s\<lparr>sessions := ss, thoughts := foldl upsert_row (thoughts s) (map thought_row ts), vindex := idx\<rparr>)"
proof -
  have "row_ok (store_dim s) r"
    if "r \<in> set (foldl upsert_row (thoughts s) (map thought_row ts))" for r
  proof -
    from that set_foldl_upsert_row have "r \<in> set (thoughts s) \<or> r \<in> thought_row ` set ts" by fastforce
    then show ?thesis
    proof
      assume "r \<in> set (thoughts s)"
      with assms(1) show ?thesis by (simp add: store_ok_def)
    next
      assume "r \<in> thought_row ` set ts"
      then obtain t where "t \<in> set ts" "r = thought_row t" by auto
      with assms(2) row_ok_thought_row [of t] show ?thesis by simp
    qed
  qed
  then show ?thesis by (simp add: store_ok_def)
qed

lemma store_okD:
  assumes "store_ok s" "r \<in> set (thoughts s)"
  shows "r_embedding_dim r = store_dim s" "\<exists>t. row_to_thought r = Inr t \<and> tid t = r_id r"
    "blob_to_vector (r_embedding_blob r) (r_embedding_dim r) = Inr (r_embedding_blob r)"
    "int (length (r_embedding_blob r)) = store_dim s"
proof -
  from assms have d: "r_embedding_dim r = store_dim s"
    and c: "case row_to_thought r of Inl e \<Rightarrow> False | Inr t \<Rightarrow> tid t = r_id r"
    by (auto simp: store_ok_def row_ok_def)
  show "r_embedding_dim r = store_dim s" by (rule d)
  show "\<exists>t. row_to_thought r = Inr t \<and> tid t = r_id r" using c by (cases "row_to_thought r") auto
  then obtain t where t: "row_to_thought r = Inr t" by blast
  then show b: "blob_to_vector (r_embedding_blob r) (r_embedding_dim r) = Inr (r_embedding_blob r)"
    by (auto simp: row_to_thought_def blob_to_vector_def split: if_splits)
  then show "int (length (r_embedding_blob r)) = store_dim s"
    using d by (auto simp: blob_to_vector_def split: if_splits)
qed

lemma rebuild_ok:
  assumes "store_ok s"
  shows "\<exists>idx. rebuild_vector_index s = (s\<lparr>vindex := idx\<rparr>, Inr ()) \<and> fst ` set idx = r_id ` set (thoughts s)"
proof -
  let ?f = "\<lambda>r. case blob_to_vector (r_embedding_blob r) (r_embedding_dim r) of
                        Inl e \<Rightarrow> Inl e | Inr v \<Rightarrow> Inr (r_id r, v)"
  have ok: "\<forall>r \<in> set (thoughts s). ?f r = Inr (r_id r, r_embedding_blob r) \<and> int (length (r_embedding_blob r)) = store_dim s"
    using store_okD [OF assms] by simp
  have "mapM ?f rs = Inr (map (\<lambda>r. (r_id r, r_embedding_blob r)) rs)" if "set rs \<subseteq> set (thoughts s)" for rs
    using that ok by (induction rs) auto
  then have m: "mapM ?f (thoughts s) = Inr (map (\<lambda>r. (r_id r, r_embedding_blob r)) (thoughts s))" by simp
  let ?items = "map (\<lambda>r. (r_id r, r_embedding_blob r)) (thoughts s)"
  have "\<not> (\<exists>item \<in> set ?items. int (length (snd item)) \<noteq> store_dim s)" using ok by auto
  then have b: "index_build (store_dim s) ?items
                = Inr (map (\<lambda>item. (fst item, normalize_l2 (map to_float32 (snd item)))) ?items)"
    unfolding index_build_def by auto
  let ?idx = "map (\<lambda>item. (fst item, normalize_l2 (map to_float32 (snd item)))) ?items"
  have f: "fst ` set ?idx = r_id ` set (thoughts s)"
    by force
  have "rebuild_vector_index s = (s\<lparr>vindex := ?idx\<rparr>, Inr ())"
    unfolding rebuild_vector_index_def by (simp only: m b sum.case)
  with f show ?thesis by blast
qed

lemma query_rows_all:
  assumes "int (length (thoughts s)) \<le> limit"
  shows "set (query_rows s no_filters limit) = set (thoughts s)"
proof -
  have "filter (sql_where no_filters) (thoughts s) = thoughts s"
    by (simp add: sql_where_def no_filters_def)
  moreover have "filter (tags_match no_filters) xs = xs" for xs
    by (simp add: tags_match_def no_filters_def)
  moreover have "length (thoughts s) \<le> nat (max 1 limit)" using assms by auto
  ultimately show ?thesis by (simp add: query_rows_def)
qed

lemma retrieve_all:
  assumes "store_ok s" "int (length (thoughts s)) \<le> limit"
  shows "\<exists>out. retrieve s no_filters limit = Inr out \<and>
           (\<forall>r \<in> set (thoughts s). \<forall>t. row_to_thought r = Inr t \<longrightarrow> t \<in> set out)"
proof -
  have "\<forall>r \<in> set (query_rows s no_filters limit). \<exists>t. row_to_thought r = Inr t"
    using store_okD(2) [OF assms(1)] query_rows_all [OF assms(2)] by blast
  from mapM_ok [OF this] query_rows_all [OF assms(2)] show ?thesis
    unfolding retrieve_def by auto
qed

lemma mapM_set:
  "mapM f xs = Inr ys \<Longrightarrow> y \<in> set ys \<Longrightarrow> \<exists>x \<in> set xs. f x = Inr y"
  by (induction xs arbitrary: ys) (auto split: sum.splits)

lemma query_rows_subset: "set (query_rows s f n) \<subseteq> set (thoughts s)"
proof -
  have "set (take k xs) \<subseteq> set xs" for k and xs :: "row list" by (rule set_take_subset)
  then show ?thesis unfolding query_rows_def
    by (metis (no_types, lifting) filter_is_subset set_sort subset_trans set_filter)
qed

lemma retrieve_ids:
  assumes "retrieve s f n = Inr res" "t \<in> set res"
  shows "\<exists>r \<in> set (thoughts s). row_to_thought r = Inr t"
  using mapM_set [OF assms [unfolded retrieve_def]] query_rows_subset [of s f n] by auto

lemma row_to_thought_tid: "row_to_thought r = Inr t \<Longrightarrow> tid t = strip (r_id r)"
  by (auto simp: row_to_thought_def Thought_def Let_def split: sum.splits if_splits)

lemma batch_store_failure:
  assumes "\<forall>t \<in> set ts. valid_thought t" "store_ok s" "batch_store fault s ts = (s', Inl e)"
  shows "s' = s" "(\<exists>t \<in> set ts. embedding_dim t \<noteq> store_dim s) \<or> (\<exists>k < length ts. fault = Some k)"
proof -
  have "s' = s \<and> ((\<exists>t \<in> set ts. embedding_dim t \<noteq> store_dim s) \<or> (\<exists>k < length ts. fault = Some k))"
  proof (cases "ts = [] \<or> (\<exists>t \<in> set ts. embedding_dim t \<noteq> store_dim s)")
    case True
    with assms(3) show ?thesis by (auto simp: batch_store_def split: if_splits)
  next
    case False
    then have dims: "\<forall>t \<in> set ts. embedding_dim t = store_dim s" and ne: "ts \<noteq> []" by auto
    show ?thesis
    proof (cases "insert_thoughts fault 0 (sessions s, thoughts s) ts")
      case (Inl e')
      then have "\<exists>k < length ts. fault = Some k" using insert_thoughts_fail [of fault 0 _ ts e'] by auto
      moreover have "s' = s" using assms(3) Inl False by (simp add: batch_store_def)
      ultimately show ?thesis by simp
    next
      case (Inr tabs)
      from insert_thoughts_ok [OF Inr] have tabs: "snd tabs = foldl upsert_row (thoughts s) (map thought_row ts)"
        by simp
      let ?s1 = "s\<lparr>sessions := fst tabs, thoughts := snd tabs\<rparr>"
      have ok1: "store_ok ?s1"
        using store_ok_rows [OF assms(2), where ts = ts and ss = "fst tabs" and idx = "vindex s"] assms(1) dims tabs
        by (simp add: store_ok_def)
      have lens: "\<forall>t \<in> set ts. int (length (embedding_vector t)) = store_dim s"
        using assms(1) dims valid_thoughtD(14) by auto
      show ?thesis
      proof (cases "vector_backend s")
        case Numpy
        from upsert_all_ok [OF lens, of "vindex s"] obtain idx' where
          "upsert_all (store_dim s) (vindex s) ts = (idx', Inr ())" by blast
        with assms(3) Inr False Numpy show ?thesis by (simp add: batch_store_def)
      next
        case Faiss
        from rebuild_ok [OF ok1] obtain idx where "rebuild_vector_index ?s1 = (?s1\<lparr>vindex := idx\<rparr>, Inr ())"
          by blast
        with assms(3) Inr False Faiss show ?thesis by (simp add: batch_store_def)
      qed
    qed
  qed
  then show "s' = s" "(\<exists>t \<in> set ts. embedding_dim t \<noteq> store_dim s) \<or> (\<exists>k < length ts. fault = Some k)"
    by auto
qed

lemma batch_store_success:
  assumes "\<forall>t \<in> set ts. valid_thought t" "store_ok s" "batch_store fault s ts = (s', Inr out)"
  shows "out = ts" "\<forall>t \<in> set ts. embedding_dim t = store_dim s" "\<forall>k < length ts. fault \<noteq> Some k"
    "store_ok s'" "thoughts s' = foldl upsert_row (thoughts s) (map thought_row ts)"
    "tid ` set ts \<subseteq> fst ` set (vindex s')" "store_dim s' = store_dim s"
proof -
  have "out = ts \<and> (\<forall>t \<in> set ts. embedding_dim t = store_dim s) \<and> (\<forall>k < length ts. fault \<noteq> Some k) \<and>
    store_ok s' \<and> thoughts s' = foldl upsert_row (thoughts s) (map thought_row ts) \<and>
    tid ` set ts \<subseteq> fst ` set (vindex s') \<and> store_dim s' = store_dim s"
  proof (cases "ts = []")
    case True
    with assms show ?thesis by (simp add: batch_store_def)
  next
    case False
    from assms(3) False have dims: "\<forall>t \<in> set ts. embedding_dim t = store_dim s"
      by (auto simp: batch_store_def split: if_splits)
    then have nd: "\<not> (\<exists>t \<in> set ts. embedding_dim t \<noteq> store_dim s)" by simp
    from assms(3) False nd obtain tabs where Inr: "insert_thoughts fault 0 (sessions s, thoughts s) ts = Inr tabs"
      by (cases "insert_thoughts fault 0 (sessions s, thoughts s) ts") (auto simp: batch_store_def)
    have nofault: "\<forall>k < length ts. fault \<noteq> Some k"
    proof (intro allI impI notI)
      fix k assume "k < length ts" "fault = Some k"
      then have "insert_thoughts fault 0 (sessions s, thoughts s) ts = Inl DatabaseError"
        using insert_thoughts_fail [of fault 0 "(sessions s, thoughts s)" ts DatabaseError] by auto
      with Inr show False by simp
    qed
    from insert_thoughts_ok [OF Inr] have tabs: "snd tabs = foldl upsert_row (thoughts s) (map thought_row ts)"
      by simp
    let ?s1 = "s\<lparr>sessions := fst tabs, thoughts := snd tabs\<rparr>"
    have ok: "store_ok (s\<lparr>sessions := fst tabs, thoughts := snd tabs, vindex := idx\<rparr>)" for idx
      using store_ok_rows [OF assms(2), where ts = ts and ss = "fst tabs" and idx = idx] assms(1) dims tabs by simp
    have ok1: "store_ok ?s1" using ok [of "vindex s"] by (simp add: store_ok_def)
    have lens: "\<forall>t \<in> set ts. int (length (embedding_vector t)) = store_dim s"
      using assms(1) dims valid_thoughtD(14) by auto
    show ?thesis
    proof (cases "vector_backend s")
      case Numpy
      from upsert_all_ok [OF lens, of "vindex s"] obtain idx' where
        u: "upsert_all (store_dim s) (vindex s) ts = (idx', Inr ())"
        and f: "fst ` set idx' = fst ` set (vindex s) \<union> tid ` set ts" by blast
      from assms(3) Inr False nd Numpy u have "s' = ?s1\<lparr>vindex := idx'\<rparr>" "out = ts"
        by (simp_all add: batch_store_def)
      with ok [of idx'] f tabs dims nofault show ?thesis by simp
    next
      case Faiss
      from rebuild_ok [OF ok1] obtain idx where r: "rebuild_vector_index ?s1 = (?s1\<lparr>vindex := idx\<rparr>, Inr ())"
        and f: "fst ` set idx = r_id ` set (thoughts ?s1)" by blast
      from assms(3) Inr False nd Faiss r have s': "s' = ?s1\<lparr>vindex := idx\<rparr>" "out = ts"
        by (simp_all add: batch_store_def)
      have "tid t \<in> r_id ` set (snd tabs)" if "t \<in> set ts" for t
      proof -
        have "find (\<lambda>r. r_id r = tid t) (snd tabs) \<noteq> None"
          unfolding tabs find_foldl_upsert using find_rev_last [OF that] by simp
        then obtain x where "x \<in> set (snd tabs)" "r_id x = tid t" by (auto simp: find_None_iff)
        then show ?thesis by (metis imageI)
      qed
      with s' ok [of idx] f tabs dims nofault show ?thesis by auto
    qed
  qed
  then show "out = ts" "\<forall>t \<in> set ts. embedding_dim t = store_dim s" "\<forall>k < length ts. fault \<noteq> Some k"
    "store_ok s'" "thoughts s' = foldl upsert_row (thoughts s) (map thought_row ts)"
    "tid ` set ts \<subseteq> fst ` set (vindex s')" "store_dim s' = store_dim s" by auto
qed

lemma get_thought_by_id_absent:
  "i \<notin> r_id ` set (thoughts s) \<Longrightarrow> get_thought_by_id s i = Inr None"
proof -
  assume "i \<notin> r_id ` set (thoughts s)"
  then have "find (\<lambda>r. r_id r = i) (thoughts s) = None" by (force simp: find_None_iff)
  then show ?thesis by (simp add: get_thought_by_id_def)
qed

lemma retrieve_absent:
  assumes "store_ok s" "i \<notin> r_id ` set (thoughts s)" "retrieve s f n = Inr res"
  shows "i \<notin> tid ` set res"
proof
  assume "i \<in> tid ` set res"
  then obtain t where t: "t \<in> set res" "tid t = i" by auto
  from retrieve_ids [OF assms(3) t(1)] obtain r where r: "r \<in> set (thoughts s)" "row_to_thought r = Inr t"
    by blast
  from store_okD(2) [OF assms(1) r(1)] r(2) have "tid t = r_id r" by auto
  with t r assms(2) show False by auto
qed

subsection \<open>C1: batch_store is atomic\<close>

text \<open>
  Claim C1. For a store whose rows were written by \<open>batch_store\<close> and a batch of \<open>Thought\<close>
  objects, a call of \<open>batch_store\<close> either fails or succeeds.
  It fails exactly when a thought's \<open>embedding_dim\<close> differs from the store's or the database
  raises at one of the inserts; the store after the call is then the store before it (tables
  and vector index), so a thought of the batch whose id was not stored before is not returned by
  \<open>get_thought_by_id\<close> nor by any \<open>retrieve\<close>.
  When it succeeds it returns the batch, and every thought of the batch is visible: for its id,
  \<open>get_thought_by_id\<close> returns the thought of the batch last written under that id (the thought
  itself when the ids of the batch are distinct), as it reads back from its row; an unfiltered
  \<open>retrieve\<close> with a limit of at least the table's size returns it; the vector index has its id.
\<close>
theorem batch_store_atomic:
  assumes "store_ok s" and "\<forall>t \<in> set ts. valid_thought t"
  shows "case batch_store fault s ts of
           (s', Inl e) \<Rightarrow>
             ((\<exists>t \<in> set ts. embedding_dim t \<noteq> store_dim s) \<or> (\<exists>k < length ts. fault = Some k)) \<and>
             s' = s \<and>
             (\<forall>t \<in> set ts. tid t \<notin> r_id ` set (thoughts s) \<longrightarrow>
                get_thought_by_id s' (tid t) = Inr None \<and>
                (\<forall>f n res. retrieve s' f n = Inr res \<longrightarrow> tid t \<notin> tid ` set res))
         | (s', Inr out) \<Rightarrow>
             (\<forall>t \<in> set ts. embedding_dim t = store_dim s) \<and> (\<forall>k < length ts. fault \<noteq> Some k) \<and>
             out = ts \<and> store_ok s' \<and>
             (\<forall>t \<in> set ts.
                get_thought_by_id s' (tid t) = Inr (Some (persisted (last (filter (\<lambda>u. tid u = tid t) ts)))) \<and>
                (\<forall>n \<ge> int (length (thoughts s')). \<exists>res. retrieve s' no_filters n = Inr res \<and>
                    persisted (last (filter (\<lambda>u. tid u = tid t) ts)) \<in> set res) \<and>
                tid t \<in> fst ` set (vindex s'))"
proof (cases "batch_store fault s ts")
  case (Pair s' r)
  show ?thesis
  proof (cases r)
    case (Inl e)
    with Pair have b: "batch_store fault s ts = (s', Inl e)" by simp
    note f = batch_store_failure [OF assms(2,1) b]
    have "get_thought_by_id s (tid t) = Inr None \<and>
          (\<forall>f n res. retrieve s f n = Inr res \<longrightarrow> tid t \<notin> tid ` set res)"
      if "tid t \<notin> r_id ` set (thoughts s)" for t
      using get_thought_by_id_absent [OF that] retrieve_absent [OF assms(1) that] by blast
    with f show ?thesis unfolding b by (simp, blast)
  next
    case (Inr out)
    with Pair have b: "batch_store fault s ts = (s', Inr out)" by simp
    note g = batch_store_success [OF assms(2,1) b]
    have vis: "get_thought_by_id s' (tid t) = Inr (Some (persisted (last (filter (\<lambda>u. tid u = tid t) ts)))) \<and>
                (\<forall>n \<ge> int (length (thoughts s')). \<exists>res. retrieve s' no_filters n = Inr res \<and>
                    persisted (last (filter (\<lambda>u. tid u = tid t) ts)) \<in> set res)"
      if t: "t \<in> set ts" for t
    proof -
      let ?u = "last (filter (\<lambda>u. tid u = tid t) ts)"
      have "filter (\<lambda>u. tid u = tid t) ts \<noteq> []" using t by (auto simp: filter_empty_conv)
      then have "?u \<in> set (filter (\<lambda>u. tid u = tid t) ts)" by (rule last_in_set)
      then have u: "?u \<in> set ts" by simp
      then have vu: "valid_thought ?u" using assms(2) by blast
      have fnd: "find (\<lambda>r. r_id r = tid t) (thoughts s') = Some (thought_row ?u)"
        unfolding g(5) find_foldl_upsert using find_rev_last [OF t] by simp
      then have 1: "get_thought_by_id s' (tid t) = Inr (Some (persisted ?u))"
        by (simp add: get_thought_by_id_def row_to_thought_row [OF vu])
      from fnd have mem: "thought_row ?u \<in> set (thoughts s')"
        by (auto simp: find_Some_iff in_set_conv_nth)
      have 2: "\<exists>res. retrieve s' no_filters n = Inr res \<and> persisted ?u \<in> set res"
        if "n \<ge> int (length (thoughts s'))" for n
        using retrieve_all [OF g(4) that] mem row_to_thought_row [OF vu] by blast
      from 1 2 show ?thesis by blast
    qed
    from g vis show ?thesis unfolding b by auto
  qed
qed

theorem batch_store_atomic_witness:
  "store_ok (empty_store 2 Numpy) \<and>
   valid_thought (mk_thought ''good'' 1 ''s'' [] [1, 0]) \<and>
   valid_thought (mk_thought ''bad'' 2 ''s'' [] [1, 0, 0]) \<and>
   batch_store None (empty_store 2 Numpy)
     [mk_thought ''good'' 1 ''s'' [] [1, 0], mk_thought ''bad'' 2 ''s'' [] [1, 0, 0]]
     = (empty_store 2 Numpy, Inl ValueError) \<and>
   get_thought_by_id (empty_store 2 Numpy) ''good'' = Inr None \<and>
   get_thought_by_id (fst (batch_store None (empty_store 2 Numpy) [mk_thought ''good'' 1 ''s'' [] [1, 0]])) ''good''
     = Inr (Some (persisted (mk_thought ''good'' 1 ''s'' [] [1, 0])))"
proof -
  have ok: "store_ok (empty_store 2 Numpy)" by (simp add: store_ok_def empty_store_def)
  have g: "valid_thought (mk_thought ''good'' 1 ''s'' [] [1, 0])"
    by (simp add: valid_thought_def Thought_def mk_thought_def strip_def is_space_def)
  have b: "valid_thought (mk_thought ''bad'' 2 ''s'' [] [1, 0, 0])"
    by (simp add: valid_thought_def Thought_def mk_thought_def strip_def is_space_def)
  have f: "batch_store None (empty_store 2 Numpy)
     [mk_thought ''good'' 1 ''s'' [] [1, 0], mk_thought ''bad'' 2 ''s'' [] [1, 0, 0]]
     = (empty_store 2 Numpy, Inl ValueError)"
    by (simp add: batch_store_def empty_store_def mk_thought_def)
  have r: "snd (batch_store None (empty_store 2 Numpy) [mk_thought ''good'' 1 ''s'' [] [1, 0]])
           = Inr [mk_thought ''good'' 1 ''s'' [] [1, 0]]"
    by (simp add: batch_store_def empty_store_def mk_thought_def index_upsert_def split: prod.splits sum.splits)
  have a: "get_thought_by_id (empty_store 2 Numpy) ''good'' = Inr None"
    by (simp add: get_thought_by_id_def empty_store_def)
  from batch_store_atomic [OF ok, of "[mk_thought ''good'' 1 ''s'' [] [1, 0]]" None] g r
  have "get_thought_by_id (fst (batch_store None (empty_store 2 Numpy) [mk_thought ''good'' 1 ''s'' [] [1, 0]])) ''good''
     = Inr (Some (persisted (mk_thought ''good'' 1 ''s'' [] [1, 0])))"
    by (cases "batch_store None (empty_store 2 Numpy) [mk_thought ''good'' 1 ''s'' [] [1, 0]]")
       (simp add: mk_thought_def)
  with ok g b f a show ?thesis by simp
qed

subsection \<open>C3: the hybrid ranking of semantic_search\<close>










lemma set_sorted_desc [simp]: "set (sorted_desc key xs) = set xs"
  by (simp add: sorted_desc_def)

lemma length_sorted_desc [simp]: "length (sorted_desc key xs) = length xs"
  by (simp add: sorted_desc_def)

lemma surviving_rows_subset: "set (surviving_rows s f cs) \<subseteq> set (thoughts s)"
  by (auto simp: surviving_rows_def fetch_rows_by_ids_def)









definition tie_store :: store where
  \<comment> \<open>two thoughts of session \<open>s\<close> with orthogonal unit vectors, \<open>b\<close> stored first and older; it
      is what \<open>batch_store\<close> makes of the empty store (\<open>tie_store_eq\<close>)\<close>
  "tie_store = \<lparr>store_dim = 2, vector_backend = Numpy, sessions = [(''s'', None)],
      thoughts = [thought_row (mk_thought ''b'' 1000000 ''s'' [] [0, 1]),
                  thought_row (mk_thought ''a'' 3000000 ''s'' [] [1, 0])],
      vindex = [(''b'', [0, 1]), (''a'', [1, 0])]\<rparr>"

lemma tie_store_eq:
  "batch_store None (empty_store 2 Numpy)
     [mk_thought ''b'' 1000000 ''s'' [] [0, 1], mk_thought ''a'' 3000000 ''s'' [] [1, 0]]
   = (tie_store, Inr [mk_thought ''b'' 1000000 ''s'' [] [0, 1], mk_thought ''a'' 3000000 ''s'' [] [1, 0]])"
  by (simp add: batch_store_def empty_store_def mk_thought_def index_upsert_def tie_store_def
      insert_session_def upsert_row_def thought_row_def normalize_l2_def l2_norm_def)








definition ex_store :: store where
  \<comment> \<open>the example store: two thoughts of session \<open>s\<close> with orthogonal unit vectors, the older
      one tagged \<open>x\<close>; it is what \<open>batch_store\<close> makes of the empty store (\<open>ex_store_eq\<close>)\<close>
  "ex_store = \<lparr>store_dim = 2, vector_backend = Numpy, sessions = [(''s'', None)],
      thoughts = [thought_row (mk_thought ''a'' 1000000 ''s'' [''x''] [1, 0]),
                  thought_row (mk_thought ''b'' 3000000 ''s'' [] [0, 1])],
      vindex = [(''a'', [1, 0]), (''b'', [0, 1])]\<rparr>"

lemma ex_store_eq:
  "batch_store None (empty_store 2 Numpy)
     [mk_thought ''a'' 1000000 ''s'' [''x''] [1, 0], mk_thought ''b'' 3000000 ''s'' [] [0, 1]]
   = (ex_store, Inr [mk_thought ''a'' 1000000 ''s'' [''x''] [1, 0], mk_thought ''b'' 3000000 ''s'' [] [0, 1]])"
  by (simp add: batch_store_def empty_store_def mk_thought_def index_upsert_def ex_store_def
      insert_session_def upsert_row_def thought_row_def normalize_l2_def l2_norm_def)



lemma ex_rows:
  "row_to_thought (thought_row (mk_thought ''a'' 1000000 ''s'' [''x''] [1, 0])) = Inr (mk_thought ''a'' 1000000 ''s'' [''x''] [1, 0])"
  "row_to_thought (thought_row (mk_thought ''b'' 3000000 ''s'' [] [0, 1])) = Inr (mk_thought ''b'' 3000000 ''s'' [] [0, 1])"
  by (simp_all add: row_to_thought_def thought_row_def mk_thought_def blob_to_vector_def vector_to_blob_def
      Thought_def strip_def is_space_def t1 t2)

lemma ex_search:
  "semantic_search ex_store 4000000 [1, 0] no_filters 2 1 500 =
     Inr [\<lparr>thought = mk_thought ''a'' 1000000 ''s'' [''x''] [1, 0], semantic_score = 1, recency_score = 0, score = 1\<rparr>,
          \<lparr>thought = mk_thought ''b'' 3000000 ''s'' [] [0, 1], semantic_score = 0, recency_score = 2 / 3, score = 0\<rparr>]"
proof -
  have c: "search_candidates ex_store [1, 0] 2 500 = Inr [(''a'', 1), (''b'', 0)]"
    by (simp add: search_candidates_def index_search_def ex_store_def normalize_l2_def l2_norm_def dot_def
        sorted_desc_def)
  have d: "dict_of [(''a'', 1::real), (''b'', 0)] = [(''a'', 1), (''b'', 0)]"
    by (simp add: dict_of_def)
  have r: "surviving_rows ex_store no_filters [(''a'', 1), (''b'', 0)] = thoughts ex_store"
    by (simp add: surviving_rows_def d fetch_rows_by_ids_def ex_store_def row_matches_filters_def
        sql_where_def tags_match_def no_filters_def thought_row_def mk_thought_def)
  have m: "max_age 4000000 (thoughts ex_store) = 3"
    by (simp add: max_age_def ex_store_def age_of_def thought_row_def mk_thought_def)
  have s: "scored_rows ex_store 4000000 no_filters 1 [(''a'', 1), (''b'', 0)] =
     Inr [\<lparr>thought = mk_thought ''a'' 1000000 ''s'' [''x''] [1, 0], semantic_score = 1, recency_score = 0, score = 1\<rparr>,
          \<lparr>thought = mk_thought ''b'' 3000000 ''s'' [] [0, 1], semantic_score = 0, recency_score = 2 / 3, score = 0\<rparr>]"
    unfolding scored_rows_def r Let_def m d
    by (simp add: ex_store_def score_row_def ex_rows age_of_def)
       (simp add: thought_row_def mk_thought_def)
  show ?thesis
    unfolding semantic_search_def c
    by (simp add: r s sorted_desc_def) (simp add: ex_store_def)
qed


lemma ex_store_ok: "store_ok ex_store"
  by (simp add: store_ok_def row_ok_def ex_store_def ex_rows)
     (simp add: thought_row_def mk_thought_def)

subsection \<open>C10: a limit of zero or less\<close>

text \<open>
  Claim C10 says that with a limit of zero or less, one thought comes back as soon as a thought
  matches. The limit is indeed clamped to one, but the clamp applies before the last filter:
  \<open>retrieve\<close> cuts the rows at \<open>LIMIT 1\<close> and applies \<open>tags_any\<close> afterwards, and
  \<open>semantic_search\<close> filters the candidates of the vector index only. In the example store the
  thought tagged \<open>x\<close> is returned under limit 10 and not under limit 0, and a search with one
  candidate returns nothing although a thought matches the filter.
\<close>

theorem limit_zero_counterexample:
  "retrieve ex_store (no_filters\<lparr>tags_any := Some [''x'']\<rparr>) 10 = Inr [mk_thought ''a'' 1000000 ''s'' [''x''] [1, 0]] \<and>
   retrieve ex_store (no_filters\<lparr>tags_any := Some [''x'']\<rparr>) 0 = Inr [] \<and>
   semantic_search ex_store 4000000 [0, 1] (no_filters\<lparr>tags_any := Some [''x'']\<rparr>) 0 1 1 = Inr []"
proof -
  have q10: "query_rows ex_store (no_filters\<lparr>tags_any := Some [''x'']\<rparr>) 10
             = [thought_row (mk_thought ''a'' 1000000 ''s'' [''x''] [1, 0])]"
    by (simp add: query_rows_def ex_store_def sql_where_def tags_match_def no_filters_def thought_row_def
        mk_thought_def)
  have q0: "query_rows ex_store (no_filters\<lparr>tags_any := Some [''x'']\<rparr>) 0 = []"
    by (simp add: query_rows_def ex_store_def sql_where_def tags_match_def no_filters_def thought_row_def
        mk_thought_def)
  have c: "search_candidates ex_store [0, 1] 0 1 = Inr [(''b'', 1)]"
    by (simp add: search_candidates_def index_search_def ex_store_def normalize_l2_def l2_norm_def dot_def
        sorted_desc_def)
  have r: "surviving_rows ex_store (no_filters\<lparr>tags_any := Some [''x'']\<rparr>) [(''b'', 1)] = []"
    by (simp add: surviving_rows_def dict_of_def fetch_rows_by_ids_def ex_store_def row_matches_filters_def
        sql_where_def tags_match_def no_filters_def thought_row_def mk_thought_def)
  show ?thesis
    by (simp add: retrieve_def q10 q0 ex_rows semantic_search_def c r)
qed

lemma mapM_length: "mapM f xs = Inr ys \<Longrightarrow> length ys = length xs"
  by (induction xs arbitrary: ys) (auto split: sum.splits)

lemma scored_rows_ok:
  assumes "store_ok s"
  shows "\<exists>scored. scored_rows s now f alpha cs = Inr scored \<and> length scored = length (surviving_rows s f cs)"
proof -
  let ?rows = "surviving_rows s f cs"
  have "\<forall>r \<in> set ?rows. \<exists>y. score_row alpha now (max_age now ?rows) (dict_of cs) r = Inr y"
  proof
    fix r assume "r \<in> set ?rows"
    then have "r \<in> set (thoughts s)" using surviving_rows_subset by blast
    from store_okD(2) [OF assms this] obtain t where "row_to_thought r = Inr t" by blast
    then show "\<exists>y. score_row alpha now (max_age now ?rows) (dict_of cs) r = Inr y"
      by (simp add: score_row_def Let_def)
  qed
  from mapM_ok [OF this] show ?thesis by (auto simp: scored_rows_def Let_def)
qed

lemma take_one_sort_key:
  "xs \<noteq> [] \<Longrightarrow> \<exists>x \<in> set xs. take (Suc 0) (sort_key k xs) = [x]"
proof -
  assume "xs \<noteq> []"
  then have "sort_key k xs \<noteq> []" by (metis length_0_conv length_sort)
  then obtain y ys where y: "sort_key k xs = y # ys" by (cases "sort_key k xs") auto
  then have "y \<in> set (sort_key k xs)" by simp
  then have "y \<in> set xs" by simp
  with y show ?thesis by auto
qed

text \<open>
  Claim C10, amended. With a limit of zero or less the effective limit is one: \<open>retrieve\<close> and
  \<open>semantic_search\<close> return at most one item. \<open>retrieve\<close> returns exactly one thought when a row
  passes the \<open>WHERE\<close> clauses and \<open>tags_any\<close> is not set; \<open>semantic_search\<close> returns exactly one
  item when a candidate of the vector index survives the filters.
\<close>

theorem limit_clamped_to_one:
  assumes "store_ok s" "limit \<le> 0"
  shows "(\<forall>res. retrieve s f limit = Inr res \<longrightarrow> length res \<le> 1) \<and>
         (filter (sql_where f) (thoughts s) \<noteq> [] \<and> (tags_any f = None \<or> tags_any f = Some []) \<longrightarrow>
           (\<exists>t. retrieve s f limit = Inr [t])) \<and>
         (\<forall>res. semantic_search s now q f limit alpha max_candidates = Inr res \<longrightarrow> length res \<le> 1) \<and>
         (\<forall>cs. 0 \<le> alpha \<and> alpha \<le> 1 \<and> search_candidates s q limit max_candidates = Inr cs \<and>
           surviving_rows s f cs \<noteq> [] \<longrightarrow>
           (\<exists>it. semantic_search s now q f limit alpha max_candidates = Inr [it]))"
proof -
  from assms(2) have n: "nat (max 1 limit) = Suc 0" by simp
  have q: "length (query_rows s f limit) \<le> 1"
    unfolding query_rows_def n
    by (rule order_trans [OF length_filter_le]) simp
  have 1: "\<forall>res. retrieve s f limit = Inr res \<longrightarrow> length res \<le> 1"
    using q mapM_length by (fastforce simp: retrieve_def)
  have 2: "filter (sql_where f) (thoughts s) \<noteq> [] \<and> (tags_any f = None \<or> tags_any f = Some []) \<longrightarrow>
           (\<exists>t. retrieve s f limit = Inr [t])"
  proof
    assume a: "filter (sql_where f) (thoughts s) \<noteq> [] \<and> (tags_any f = None \<or> tags_any f = Some [])"
    then have tm: "filter (tags_match f) xs = xs" for xs by (auto simp: tags_match_def)
    from take_one_sort_key [of "filter (sql_where f) (thoughts s)" "\<lambda>r. - r_timestamp_utc r"] a
    obtain r where r: "r \<in> set (thoughts s)" "query_rows s f limit = [r]"
      unfolding query_rows_def n tm by auto
    from store_okD(2) [OF assms(1) r(1)] obtain t where "row_to_thought r = Inr t" by blast
    with r(2) show "\<exists>t. retrieve s f limit = Inr [t]" by (simp add: retrieve_def)
  qed
  have 3: "\<forall>res. semantic_search s now q f limit alpha max_candidates = Inr res \<longrightarrow> length res \<le> 1"
    unfolding semantic_search_def n
    by (auto split: if_splits sum.splits)
  have 4: "\<forall>cs. 0 \<le> alpha \<and> alpha \<le> 1 \<and> search_candidates s q limit max_candidates = Inr cs \<and>
           surviving_rows s f cs \<noteq> [] \<longrightarrow>
           (\<exists>it. semantic_search s now q f limit alpha max_candidates = Inr [it])"
  proof (intro allI impI)
    fix cs
    assume a: "0 \<le> alpha \<and> alpha \<le> 1 \<and> search_candidates s q limit max_candidates = Inr cs \<and>
           surviving_rows s f cs \<noteq> []"
    then have cne: "cs \<noteq> []" by (auto simp: surviving_rows_def fetch_rows_by_ids_def dict_of_def)
    from scored_rows_ok [OF assms(1), of now f alpha cs] obtain scored where
      sc: "scored_rows s now f alpha cs = Inr scored" "length scored = length (surviving_rows s f cs)"
      by blast
    with a have "scored \<noteq> []" by auto
    then have "sorted_desc score scored \<noteq> []" by (metis length_0_conv length_sorted_desc)
    then obtain it rest where "sorted_desc score scored = it # rest"
      by (cases "sorted_desc score scored") auto
    with a cne sc show "\<exists>it. semantic_search s now q f limit alpha max_candidates = Inr [it]"
      unfolding semantic_search_def n by simp
  qed
  from 1 2 3 4 show ?thesis by blast
qed

theorem limit_clamped_to_one_witness:
  "store_ok ex_store \<and> (0::int) \<le> 0 \<and>
   filter (sql_where no_filters) (thoughts ex_store) \<noteq> [] \<and>
   retrieve ex_store no_filters 0 = Inr [mk_thought ''b'' 3000000 ''s'' [] [0, 1]] \<and>
   (\<exists>t. retrieve ex_store no_filters 0 = Inr [t]) \<and>
   (\<exists>it. semantic_search ex_store 4000000 [1, 0] no_filters 0 1 500 = Inr [it])"
proof -
  have f: "filter (sql_where no_filters) (thoughts ex_store) \<noteq> []"
    by (simp add: sql_where_def no_filters_def ex_store_def)
  have c: "search_candidates ex_store [1, 0] 0 500 = Inr [(''a'', 1), (''b'', 0)]"
    by (simp add: search_candidates_def index_search_def ex_store_def normalize_l2_def l2_norm_def dot_def
        sorted_desc_def)
  have r: "surviving_rows ex_store no_filters [(''a'', 1), (''b'', 0)] \<noteq> []"
    by (simp add: surviving_rows_def dict_of_def fetch_rows_by_ids_def ex_store_def row_matches_filters_def
        sql_where_def tags_match_def no_filters_def thought_row_def mk_thought_def)
  have q0: "query_rows ex_store no_filters 0 = [thought_row (mk_thought ''b'' 3000000 ''s'' [] [0, 1])]"
    by (simp add: query_rows_def ex_store_def sql_where_def tags_match_def no_filters_def thought_row_def
        mk_thought_def)
  have e: "retrieve ex_store no_filters 0 = Inr [mk_thought ''b'' 3000000 ''s'' [] [0, 1]]"
    by (simp add: retrieve_def q0 ex_rows)
  from limit_clamped_to_one [OF ex_store_ok, of 0 no_filters 4000000 "[1, 0]" 1 500] f c r
  have "(\<exists>t. retrieve ex_store no_filters 0 = Inr [t]) \<and>
        (\<exists>it. semantic_search ex_store 4000000 [1, 0] no_filters 0 1 500 = Inr [it])"
    by (simp add: no_filters_def)
  with ex_store_ok f e show ?thesis by simp
qed


lemma to_float32_exact:
  assumes "is_float32 x"
  shows "to_float32 x = x"
proof (cases "x = 0")
  case True
  then show ?thesis by (simp add: to_float32_def)
next
  case False
  from assms obtain m e :: int where m: "\<bar>m\<bar> < 2 ^ 24" and e: "- 149 \<le> e" "e \<le> 104"
    and x: "x = of_int m * 2 powr (of_int e)"
    unfolding is_float32_def by blast
  from False x have m0: "m \<noteq> 0" by auto
  have ax: "\<bar>x\<bar> = of_int \<bar>m\<bar> * 2 powr (of_int e)" by (simp add: x abs_mult)
  have "real_of_int \<bar>m\<bar> < 2 ^ 24" using m by (metis of_int_less_numeral_power_cancel_iff)
  then have "\<bar>x\<bar> < 2 ^ 24 * 2 powr (of_int e)" unfolding ax by simp
  also have "\<dots> = 2 powr (of_int (24 + e))"
    by (simp add: powr_add powr_realpow [symmetric])
  finally have lt: "\<bar>x\<bar> < 2 powr (of_int (24 + e))" .
  have xpos: "0 < \<bar>x\<bar>" using False by simp
  have "log 2 \<bar>x\<bar> < of_int (24 + e)"
    using lt xpos by (simp add: log_less_iff)
  then have fl: "\<lfloor>log 2 \<bar>x\<bar>\<rfloor> \<le> 23 + e" by (simp add: floor_less_iff [symmetric] del: of_int_add)
  define E where "E = max \<lfloor>log 2 \<bar>x\<bar>\<rfloor> (- 126)"
  have E: "E \<le> 23 + e" using fl e by (simp add: E_def)
  define k where "k = nat (e - E + 23)"
  have k: "of_int e - of_int (E - 23) = real k" using E by (simp add: k_def)
  define u :: real where "u = 2 powr (of_int (E - 23))"
  have u0: "u \<noteq> 0" by (simp add: u_def)
  have "x / u = of_int m * (2 powr (of_int e) / 2 powr (of_int (E - 23)))"
    by (simp add: x u_def)
  also have "2 powr (of_int e) / 2 powr (of_int (E - 23)) = (2::real) powr (of_int e - of_int (E - 23))"
    by (simp add: powr_diff)
  also have "\<dots> = 2 ^ k" unfolding k by (simp add: powr_realpow)
  finally have q: "x / u = of_int (m * 2 ^ k)" by simp
  have "of_int (round_half_even (x / u)) * u = x"
    unfolding q round_half_even_of_int using q u0 by (metis nonzero_divide_eq_eq)
  then show ?thesis
    using False by (simp add: to_float32_def Let_def E_def u_def)
qed

lemma to_float32_rounds: "to_float32 (1 + 1 / 2 ^ 30) = 1"
proof -
  let ?x = "1 + 1 / 2 ^ 30 :: real"
  have "\<lfloor>log 2 ?x\<rfloor> = 0"
    by (subst floor_log_eq_powr_iff) simp_all
  then have e: "max \<lfloor>log 2 \<bar>?x\<bar>\<rfloor> (- 126) = 0" by simp
  have u: "(2::real) powr (of_int (0 - 23)) = 1 / 2 ^ 23"
    by (simp add: powr_minus_divide)
  have q: "?x / (1 / 2 ^ 23) = 2 ^ 23 + 1 / 2 ^ 7" by simp
  have f: "\<lfloor>(2 ^ 23 + 1 / 2 ^ 7 :: real)\<rfloor> = 2 ^ 23"
    by (subst floor_eq_iff) simp
  have r: "round_half_even (2 ^ 23 + 1 / 2 ^ 7) = 2 ^ 23"
    unfolding round_half_even_def Let_def f by simp
  have "?x \<noteq> 0" by simp
  then show ?thesis
    unfolding to_float32_def Let_def e u q r by simp
qed


lemma store_one_thought:
  fixes x :: real
  defines "t \<equiv> mk_thought ''a'' 1 ''s'' [] [x]"
  shows "valid_thought t"
    and "snd (store_thought None (empty_store 1 Numpy) t) = Inr t"
    and "get_thought_by_id (fst (store_thought None (empty_store 1 Numpy) t)) ''a''
           = Inr (Some (t\<lparr>embedding_vector := [to_float32 x]\<rparr>))"
proof -
  show v: "valid_thought t"
    by (simp add: valid_thought_def Thought_def t_def mk_thought_def strip_def is_space_def)
  have b: "batch_store None (empty_store 1 Numpy) [t] =
             (\<lparr>store_dim = 1, vector_backend = Numpy, sessions = [(''s'', None)],
               thoughts = [thought_row t], vindex = [(''a'', normalize_l2 [to_float32 x])]\<rparr>, Inr [t])"
    by (simp add: batch_store_def empty_store_def index_upsert_def insert_session_def upsert_row_def)
       (simp add: t_def mk_thought_def)
  have st: "store_thought None (empty_store 1 Numpy) t =
             (\<lparr>store_dim = 1, vector_backend = Numpy, sessions = [(''s'', None)],
               thoughts = [thought_row t], vindex = [(''a'', normalize_l2 [to_float32 x])]\<rparr>, Inr t)"
    unfolding store_thought_def b by simp
  show "snd (store_thought None (empty_store 1 Numpy) t) = Inr t"
    unfolding st by simp
  have p: "persisted t = t\<lparr>embedding_vector := [to_float32 x]\<rparr>"
    by (simp add: persisted_def vector_to_blob_def t_def mk_thought_def)
  have rid: "r_id (thought_row t) = ''a''" by (simp add: thought_row_def t_def mk_thought_def)
  show "get_thought_by_id (fst (store_thought None (empty_store 1 Numpy) t)) ''a''
           = Inr (Some (t\<lparr>embedding_vector := [to_float32 x]\<rparr>))"
    unfolding st by (simp add: get_thought_by_id_def rid row_to_thought_row [OF v] p)
qed

subsection \<open>C9: what store writes, get_thought_by_id reads back\<close>

text \<open>
  Claim C9 says that a stored thought reads back equal in every field. The embedding does not:
  \<open>_vector_to_blob\<close> casts it to \<open>float32\<close>, and \<open>1 + 2 ** -30\<close>, a \<open>float\<close> that is no
  \<open>float32\<close>, reads back as \<open>1.0\<close>.
\<close>

theorem store_roundtrip_counterexample:
  "valid_thought (mk_thought ''a'' 1 ''s'' [] [1 + 1 / 2 ^ 30]) \<and>
   snd (store_thought None (empty_store 1 Numpy) (mk_thought ''a'' 1 ''s'' [] [1 + 1 / 2 ^ 30]))
     = Inr (mk_thought ''a'' 1 ''s'' [] [1 + 1 / 2 ^ 30]) \<and>
   get_thought_by_id (fst (store_thought None (empty_store 1 Numpy) (mk_thought ''a'' 1 ''s'' [] [1 + 1 / 2 ^ 30]))) ''a''
     = Inr (Some ((mk_thought ''a'' 1 ''s'' [] [1 + 1 / 2 ^ 30])\<lparr>embedding_vector := [1]\<rparr>)) \<and>
   (mk_thought ''a'' 1 ''s'' [] [1 + 1 / 2 ^ 30])\<lparr>embedding_vector := [1]\<rparr>
     \<noteq> mk_thought ''a'' 1 ''s'' [] [1 + 1 / 2 ^ 30]"
proof (intro conjI)
  show "valid_thought (mk_thought ''a'' 1 ''s'' [] [1 + 1 / 2 ^ 30])"
    by (rule store_one_thought(1))
  show "snd (store_thought None (empty_store 1 Numpy) (mk_thought ''a'' 1 ''s'' [] [1 + 1 / 2 ^ 30]))
     = Inr (mk_thought ''a'' 1 ''s'' [] [1 + 1 / 2 ^ 30])"
    by (rule store_one_thought(2))
  show "get_thought_by_id (fst (store_thought None (empty_store 1 Numpy) (mk_thought ''a'' 1 ''s'' [] [1 + 1 / 2 ^ 30]))) ''a''
     = Inr (Some ((mk_thought ''a'' 1 ''s'' [] [1 + 1 / 2 ^ 30])\<lparr>embedding_vector := [1]\<rparr>))"
    using store_one_thought(3) [of "1 + 1 / 2 ^ 30"] by (simp only: to_float32_rounds)
  show "(mk_thought ''a'' 1 ''s'' [] [1 + 1 / 2 ^ 30])\<lparr>embedding_vector := [1]\<rparr>
     \<noteq> mk_thought ''a'' 1 ''s'' [] [1 + 1 / 2 ^ 30]"
  proof
    assume "(mk_thought ''a'' 1 ''s'' [] [1 + 1 / 2 ^ 30])\<lparr>embedding_vector := [1]\<rparr>
      = mk_thought ''a'' 1 ''s'' [] [1 + 1 / 2 ^ 30]"
    from arg_cong [OF this, of embedding_vector] show False by (simp add: mk_thought_def)
  qed
qed

text \<open>
  Claim C9, amended. A \<open>Thought\<close> that \<open>store\<close> accepts reads back, by its id, equal in every
  field but the embedding, whose components have been rounded to \<open>float32\<close> (for components in
  the range of \<open>float32\<close>); it reads back equal in every field when each component of its
  embedding is a \<open>float32\<close> value.
\<close>

theorem store_roundtrip:
  assumes "store_ok s" "valid_thought t" "store_thought fault s t = (s', Inr out)"
  shows "out = t \<and>
         (\<exists>t'. get_thought_by_id s' (tid t) = Inr (Some t') \<and>
            tid t' = tid t \<and> timestamp_utc t' = timestamp_utc t \<and> session_id t' = session_id t \<and>
            category t' = category t \<and> confidence t' = confidence t \<and> tags t' = tags t \<and>
            raw_text t' = raw_text t \<and> cleaned_text t' = cleaned_text t \<and>
            embedding_dim t' = embedding_dim t \<and>
            ((\<forall>x \<in> set (embedding_vector t). float32_range x) \<longrightarrow>
               embedding_vector t' = map to_float32 (embedding_vector t)) \<and>
            ((\<forall>x \<in> set (embedding_vector t). is_float32 x) \<longrightarrow> t' = t))"
proof -
  from assms(3) obtain outs where b: "batch_store fault s [t] = (s', Inr outs)" and o: "out = hd outs"
    by (auto simp: store_thought_def split: prod.splits sum.splits)
  from assms(2) have v: "\<forall>u \<in> set [t]. valid_thought u" by simp
  note g = batch_store_success [OF v assms(1) b]
  from g(1) o have out: "out = t" by simp
  have "find (\<lambda>r. r_id r = tid t) (thoughts s') = Some (thought_row t)"
    unfolding g(5) by (simp add: find_upsert_row) (simp add: thought_row_def)
  then have get: "get_thought_by_id s' (tid t) = Inr (Some (persisted t))"
    by (simp add: get_thought_by_id_def row_to_thought_row [OF assms(2)])
  have ex: "persisted t = t" if "\<forall>x \<in> set (embedding_vector t). is_float32 x"
  proof -
    from that have "map to_float32 (embedding_vector t) = embedding_vector t"
      by (simp add: map_idI to_float32_exact)
    then show ?thesis by (simp add: persisted_def vector_to_blob_def)
  qed
  from out get ex show ?thesis by (simp add: persisted_def vector_to_blob_def)
qed

theorem store_roundtrip_witness:
  "store_ok (empty_store 2 Numpy) \<and> valid_thought (mk_thought ''good'' 1 ''s'' [] [1, 0]) \<and>
   is_float32 1 \<and> is_float32 0 \<and>
   snd (store_thought None (empty_store 2 Numpy) (mk_thought ''good'' 1 ''s'' [] [1, 0]))
     = Inr (mk_thought ''good'' 1 ''s'' [] [1, 0]) \<and>
   get_thought_by_id (fst (store_thought None (empty_store 2 Numpy) (mk_thought ''good'' 1 ''s'' [] [1, 0]))) ''good''
     = Inr (Some (mk_thought ''good'' 1 ''s'' [] [1, 0]))"
proof -
  let ?t = "mk_thought ''good'' 1 ''s'' [] [1, 0]"
  have ok: "store_ok (empty_store 2 Numpy)" by (simp add: store_ok_def empty_store_def)
  have v: "valid_thought ?t"
    by (simp add: valid_thought_def Thought_def mk_thought_def strip_def is_space_def)
  have f1: "is_float32 1" unfolding is_float32_def by (rule exI [of _ 1], rule exI [of _ 0]) simp
  have f0: "is_float32 0" unfolding is_float32_def by (rule exI [of _ 0], rule exI [of _ 0]) simp
  from f1 f0 have f: "\<forall>x \<in> set [1, 0 :: real]. is_float32 x" by simp
  obtain s' r where p: "store_thought None (empty_store 2 Numpy) ?t = (s', r)" by fastforce
  have "snd (store_thought None (empty_store 2 Numpy) ?t) = Inr ?t"
    by (simp add: store_thought_def batch_store_def empty_store_def mk_thought_def index_upsert_def
        split: prod.splits sum.splits)
  with p have r: "r = Inr ?t" by simp
  from store_roundtrip [OF ok v p [unfolded r]] f
  have "get_thought_by_id s' ''good'' = Inr (Some ?t)"
    by (auto simp: mk_thought_def)
  with ok v f1 f0 p r show ?thesis by simp
qed

section \<open>graph.py\<close>

record edge =
  source_id :: string
  target_id :: string
  relation :: string
  weight :: real

record tgraph =
  g_nodes :: "(string \<times> string \<times> int) list"
  g_edges :: "edge list"

text \<open>
  The tables \<open>thought_graph_nodes\<close> (\<open>thought_id\<close>, then \<open>session_id\<close> and \<open>timestamp_utc\<close>) and
  \<open>thought_graph_edges\<close>, in the order of insertion; \<open>created_at_utc\<close> and the metadata are
  written and never read, and are left out, as is the networkx or igraph mirror of the tables,
  which no operation modelled here reads. The graph works on the connection of its store: an
  operation takes the store and the graph and returns both.
\<close>

definition empty_graph :: tgraph where
  \<comment> \<open>\<open>ThoughtGraph(store)\<close> on a new database\<close>
  "empty_graph = \<lparr>g_nodes = [], g_edges = []\<rparr>"

definition link_many :: "(edge \<Rightarrow> bool) \<Rightarrow> tgraph \<Rightarrow> edge list \<Rightarrow> tgraph \<times> (error + unit)" where
  \<comment> \<open>one transaction; \<open>fails e\<close>: the database raises at the insert of \<open>e\<close>, and the
      transaction is rolled back\<close>
  "link_many fails g edges =
     (if edges = [] then (g, Inr ())
      else let ins = filter (\<lambda>e. source_id e \<noteq> target_id e) edges
           in if \<exists>e \<in> set ins. fails e then (g, Inl DatabaseError)
              else (g\<lparr>g_edges := g_edges g @ ins\<rparr>, Inr ()))"

definition link ::
  "(edge \<Rightarrow> bool) \<Rightarrow> tgraph \<Rightarrow> string \<Rightarrow> string \<Rightarrow> string \<Rightarrow> real \<Rightarrow> bool \<Rightarrow> tgraph \<times> (error + unit)" where
  "link fails g src tgt rel w bidirectional =
     (if src = [] \<or> tgt = [] then (g, Inl ValueError)
      else if src = tgt then (g, Inr ())
      else if w < 0 then (g, Inl ValueError)
      else link_many fails g
             (\<lparr>source_id = src, target_id = tgt, relation = rel, weight = w\<rparr> #
              (if bidirectional
               then [\<lparr>source_id = tgt, target_id = src, relation = rel, weight = w\<rparr>] else [])))"

definition link_temporal_successor :: "(edge \<Rightarrow> bool) \<Rightarrow> tgraph \<Rightarrow> thought \<Rightarrow> tgraph \<times> (error + unit)" where
  \<comment> \<open>\<open>_link_temporal_successor\<close>: the latest other node of the session that is not later
      than the thought; nodes of equal time in the order of the table (SQL leaves it open)\<close>
  "link_temporal_successor fails g t =
     (case sort_key (\<lambda>n. - snd (snd n))
             (filter (\<lambda>n. fst (snd n) = session_id t \<and> fst n \<noteq> tid t \<and> snd (snd n) \<le> timestamp_utc t)
                (g_nodes g)) of
        [] \<Rightarrow> (g, Inr ())
      | n # _ \<Rightarrow> link fails g (fst n) (tid t) ''temporal-successor'' 1 False)"

fun link_neighbors ::
  "(edge \<Rightarrow> bool) \<Rightarrow> tgraph \<Rightarrow> thought \<Rightarrow> real \<Rightarrow> scored_thought list \<Rightarrow> tgraph \<times> (error + unit)" where
  \<comment> \<open>\<open>for item in nearest:\<close> of \<open>add_thought\<close>\<close>
  "link_neighbors fails g t threshold [] = (g, Inr ())"
| "link_neighbors fails g t threshold (item # items) =
     (if tid (thought item) = tid t then link_neighbors fails g t threshold items
      else if semantic_score item < threshold then link_neighbors fails g t threshold items
      else case link fails g (tid (thought item)) (tid t) ''semantic-similarity'' (semantic_score item) False of
             (g', Inl e) \<Rightarrow> (g', Inl e)
           | (g', Inr _) \<Rightarrow> link_neighbors fails g' t threshold items)"

definition ensure_stored :: "nat option \<Rightarrow> store \<Rightarrow> thought \<Rightarrow> bool \<Rightarrow> store \<times> (error + unit)" where
  \<comment> \<open>\<open>if store_if_missing and self._store.get_thought_by_id(thought.id) is None:
      self._store.store(thought)\<close>\<close>
  "ensure_stored store_fault s t store_if_missing =
     (if store_if_missing
      then (case get_thought_by_id s (tid t) of
              Inl e \<Rightarrow> (s, Inl e)
            | Inr None \<Rightarrow> (case store_thought store_fault s t of
                             (s', Inl e) \<Rightarrow> (s', Inl e) | (s', Inr _) \<Rightarrow> (s', Inr ()))
            | Inr (Some _) \<Rightarrow> (s, Inr ()))
      else (s, Inr ()))"

definition link_semantic ::
  "(edge \<Rightarrow> bool) \<Rightarrow> store \<Rightarrow> tgraph \<Rightarrow> int \<Rightarrow> thought \<Rightarrow> int \<Rightarrow> real \<Rightarrow> tgraph \<times> (error + unit)" where
  \<comment> \<open>\<open>if semantic_neighbors > 0:\<close> search, then link the neighbours\<close>
  "link_semantic fails s g now t semantic_neighbors semantic_threshold =
     (if semantic_neighbors > 0
      then (case semantic_search s now (embedding_vector t) no_filters (semantic_neighbors + 5) 1 500 of
              Inl e \<Rightarrow> (g, Inl e)
            | Inr nearest \<Rightarrow> link_neighbors fails g t semantic_threshold nearest)
      else (g, Inr ()))"

definition add_thought ::
  "nat option \<Rightarrow> (edge \<Rightarrow> bool) \<Rightarrow> store \<Rightarrow> tgraph \<Rightarrow> int \<Rightarrow> thought \<Rightarrow> bool \<Rightarrow> int \<Rightarrow> real \<Rightarrow> bool
     \<Rightarrow> (store \<times> tgraph) \<times> (error + thought)" where
  \<comment> \<open>\<open>add_thought(thought, store_if_missing, semantic_neighbors, semantic_threshold,
      temporal_link)\<close>; \<open>now\<close> is the clock that \<open>semantic_search\<close> reads, \<open>store_fault\<close> and
      \<open>fails\<close> the failures of the database in \<open>store\<close> and in the links\<close>
  "add_thought store_fault fails s g now t store_if_missing semantic_neighbors semantic_threshold temporal_link =
     (case ensure_stored store_fault s t store_if_missing of
        (s1, Inl e) \<Rightarrow> ((s1, g), Inl e)
      | (s1, Inr _) \<Rightarrow>
          let g1 = g\<lparr>g_nodes := dict_set (g_nodes g) (tid t) (session_id t, timestamp_utc t)\<rparr>
          in case (if temporal_link then link_temporal_successor fails g1 t else (g1, Inr ())) of
               (g2, Inl e) \<Rightarrow> ((s1, g2), Inl e)
             | (g2, Inr _) \<Rightarrow>
                 (case link_semantic fails s1 g2 now t semantic_neighbors semantic_threshold of
                    (g3, Inl e) \<Rightarrow> ((s1, g3), Inl e)
                  | (g3, Inr _) \<Rightarrow> ((s1, g3), Inr t)))"








definition edges_ok :: "tgraph \<Rightarrow> bool" where
  \<comment> \<open>the invariant of the edge table: no self-edge, no negative weight\<close>
  "edges_ok g \<longleftrightarrow> (\<forall>e \<in> set (g_edges g). source_id e \<noteq> target_id e \<and> 0 \<le> weight e)"

definition no_failure :: "edge \<Rightarrow> bool" where
  \<comment> \<open>a database that does not raise\<close>
  "no_failure e = False"

lemma link_many_edges:
  "link_many fails g edges = (g', r) \<Longrightarrow>
     (r = Inr () \<and> g' = g\<lparr>g_edges := g_edges g @ filter (\<lambda>e. source_id e \<noteq> target_id e) edges\<rparr>) \<or>
     (r = Inl DatabaseError \<and> g' = g)"
  by (auto simp: link_many_def Let_def split: if_splits)

lemma link_many_no_self_edge:
  assumes "\<forall>e \<in> set (g_edges g). source_id e \<noteq> target_id e" "link_many fails g edges = (g', r)"
  shows "\<forall>e \<in> set (g_edges g'). source_id e \<noteq> target_id e"
  using link_many_edges [OF assms(2)] assms(1) by auto

lemma link_many_edges_ok:
  assumes "edges_ok g" "\<forall>e \<in> set edges. 0 \<le> weight e" "link_many fails g edges = (g', r)"
  shows "edges_ok g'"
  using link_many_edges [OF assms(3)] assms(1,2) by (auto simp: edges_ok_def)

lemma link_cases:
  assumes "link fails g src tgt rel w bi = (g', r)"
  shows "(r \<noteq> Inr () \<and> g' = g) \<or> (r = Inr () \<and> src = tgt \<and> g' = g) \<or>
         (r = Inr () \<and> src \<noteq> [] \<and> tgt \<noteq> [] \<and> src \<noteq> tgt \<and> 0 \<le> w \<and>
          g' = g\<lparr>g_edges := g_edges g @
                 \<lparr>source_id = src, target_id = tgt, relation = rel, weight = w\<rparr> #
                 (if bi then [\<lparr>source_id = tgt, target_id = src, relation = rel, weight = w\<rparr>] else [])\<rparr>)"
proof (cases "src = [] \<or> tgt = [] \<or> src = tgt \<or> w < 0")
  case True
  with assms show ?thesis by (auto simp: link_def split: if_splits)
next
  case False
  with assms have "link_many fails g (\<lparr>source_id = src, target_id = tgt, relation = rel, weight = w\<rparr> #
              (if bi then [\<lparr>source_id = tgt, target_id = src, relation = rel, weight = w\<rparr>] else [])) = (g', r)"
    by (simp add: link_def)
  from link_many_edges [OF this] False show ?thesis by (cases bi) auto
qed

lemma link_edges_ok:
  assumes "edges_ok g" "link fails g src tgt rel w bi = (g', r)"
  shows "edges_ok g'"
  using link_cases [OF assms(2)] assms(1) by (auto simp: edges_ok_def split: if_splits)

lemma link_rejects:
  "src = tgt \<Longrightarrow> src \<noteq> [] \<Longrightarrow> link fails g src tgt rel w bi = (g, Inr ())"
  "src \<noteq> tgt \<Longrightarrow> src \<noteq> [] \<Longrightarrow> tgt \<noteq> [] \<Longrightarrow> w < 0 \<Longrightarrow> link fails g src tgt rel w bi = (g, Inl ValueError)"
  by (simp_all add: link_def)

lemma link_temporal_successor_edges_ok:
  assumes "edges_ok g" "link_temporal_successor fails g t = (g', r)"
  shows "edges_ok g'"
  using assms link_edges_ok
  by (fastforce simp: link_temporal_successor_def split: list.splits)

lemma link_neighbors_edges_ok:
  assumes "edges_ok g" "link_neighbors fails g t thr items = (g', r)"
  shows "edges_ok g'"
  using assms
proof (induction items arbitrary: g)
  case Nil
  then show ?case by simp
next
  case (Cons item items)
  show ?case
  proof (cases "tid (thought item) = tid t \<or> semantic_score item < thr")
    case True
    with Cons.prems(2) have "link_neighbors fails g t thr items = (g', r)" by (auto split: if_splits)
    from Cons.IH [OF Cons.prems(1) this] show ?thesis .
  next
    case False
    obtain g1 r1 where l: "link fails g (tid (thought item)) (tid t) ''semantic-similarity'' (semantic_score item) False = (g1, r1)"
      by fastforce
    from link_edges_ok [OF Cons.prems(1) l] have ok1: "edges_ok g1" .
    show ?thesis
    proof (cases r1)
      case (Inl e)
      with Cons.prems(2) False l have "g' = g1" by simp
      with ok1 show ?thesis by simp
    next
      case (Inr u)
      with Cons.prems(2) False l have "link_neighbors fails g1 t thr items = (g', r)" by simp
      from Cons.IH [OF ok1 this] show ?thesis .
    qed
  qed
qed

lemma link_semantic_edges_ok:
  assumes "edges_ok g" "link_semantic fails s g now t n thr = (g', r)"
  shows "edges_ok g'"
proof (cases "n > 0")
  case True
  show ?thesis
  proof (cases "semantic_search s now (embedding_vector t) no_filters (n + 5) 1 500")
    case (Inl e)
    with True assms show ?thesis by (simp add: link_semantic_def)
  next
    case (Inr nearest)
    with True assms(2) have "link_neighbors fails g t thr nearest = (g', r)" by (simp add: link_semantic_def)
    from link_neighbors_edges_ok [OF assms(1) this] show ?thesis .
  qed
next
  case False
  with assms show ?thesis by (simp add: link_semantic_def)
qed

lemma add_thought_edges_ok:
  assumes "edges_ok g" "add_thought sf fails s g now t sim n thr tlink = ((s', g'), r)"
  shows "edges_ok g'"
proof -
  let ?g1 = "g\<lparr>g_nodes := dict_set (g_nodes g) (tid t) (session_id t, timestamp_utc t)\<rparr>"
  have ok1: "edges_ok ?g1" using assms(1) by (simp add: edges_ok_def)
  obtain s1 r1 where e: "ensure_stored sf s t sim = (s1, r1)" by fastforce
  obtain g2 r2 where l: "(if tlink then link_temporal_successor fails ?g1 t else (?g1, Inr ())) = (g2, r2)"
    by fastforce
  have ok2: "edges_ok g2"
    using l ok1 link_temporal_successor_edges_ok [OF ok1, of fails t g2 r2] by (auto split: if_splits)
  obtain g3 r3 where m: "link_semantic fails s1 g2 now t n thr = (g3, r3)" by fastforce
  have ok3: "edges_ok g3" by (rule link_semantic_edges_ok [OF ok2 m])
  have "g' = g \<or> g' = g2 \<or> g' = g3"
    using assms(2) e l m
    by (cases r1; cases r2; cases r3) (auto simp: add_thought_def Let_def)
  with assms(1) ok2 ok3 show ?thesis by blast
qed

subsection \<open>C2: the edges that the graph persists\<close>

text \<open>
  Claim C2: every persisted edge has distinct ends and a weight that is not negative, because
  every operation that creates edges drops a self-edge and rejects a negative weight.
  \<open>link\<close> does both (\<open>link_rejects\<close>, \<open>link_edges_ok\<close>), and so does \<open>add_thought\<close>, which
  creates its edges through \<open>link\<close> (\<open>add_thought_edges_ok\<close>). \<open>link_many\<close> drops the
  self-edges (\<open>link_many_no_self_edge\<close>) and does not look at the weights: called with the one
  edge \<open>("a", "b", "explicit-reference", -1.0, {})\<close> on an empty graph it returns normally
  and the edge of weight \<open>-1\<close> is in the table, where \<open>link\<close> raises for the same edge.
\<close>

theorem link_many_negative_weight:
  "link_many no_failure empty_graph
     [\<lparr>source_id = ''a'', target_id = ''b'', relation = ''explicit-reference'', weight = - 1\<rparr>]
   = (\<lparr>g_nodes = [], g_edges = [\<lparr>source_id = ''a'', target_id = ''b'', relation = ''explicit-reference'', weight = - 1\<rparr>]\<rparr>,
      Inr ()) \<and>
   link no_failure empty_graph ''a'' ''b'' ''explicit-reference'' (- 1) False = (empty_graph, Inl ValueError)"
  by (simp add: link_many_def link_def empty_graph_def no_failure_def)

definition pending_temporal :: "tgraph \<Rightarrow> thought \<Rightarrow> edge list" where
  \<comment> \<open>the edge that \<open>_link_temporal_successor\<close> asks \<open>link\<close> for, if any\<close>
  "pending_temporal g t =
     (case sort_key (\<lambda>n. - snd (snd n))
             (filter (\<lambda>n. fst (snd n) = session_id t \<and> fst n \<noteq> tid t \<and> snd (snd n) \<le> timestamp_utc t)
                (g_nodes g)) of
        [] \<Rightarrow> []
      | n # _ \<Rightarrow> [\<lparr>source_id = fst n, target_id = tid t, relation = ''temporal-successor'', weight = 1\<rparr>])"

definition pending_semantic :: "thought \<Rightarrow> real \<Rightarrow> scored_thought list \<Rightarrow> edge list" where
  \<comment> \<open>the edges that the loop over \<open>nearest\<close> asks \<open>link\<close> for\<close>
  "pending_semantic t threshold nearest =
     map (\<lambda>item. \<lparr>source_id = tid (thought item), target_id = tid t, relation = ''semantic-similarity'',
                   weight = semantic_score item\<rparr>)
       (filter (\<lambda>item. tid (thought item) \<noteq> tid t \<and> \<not> semantic_score item < threshold) nearest)"

definition pending_edges :: "store \<Rightarrow> tgraph \<Rightarrow> int \<Rightarrow> thought \<Rightarrow> int \<Rightarrow> real \<Rightarrow> bool \<Rightarrow> edge list" where
  \<comment> \<open>the edges of one \<open>add_thought\<close>, in the order in which it asks for them; \<open>s\<close> is the store
      once the thought is stored\<close>
  "pending_edges s g now t semantic_neighbors semantic_threshold temporal_link =
     (if temporal_link
      then pending_temporal (g\<lparr>g_nodes := dict_set (g_nodes g) (tid t) (session_id t, timestamp_utc t)\<rparr>) t
      else []) @
     (if semantic_neighbors > 0
      then (case semantic_search s now (embedding_vector t) no_filters (semantic_neighbors + 5) 1 500 of
              Inl e \<Rightarrow> []
            | Inr nearest \<Rightarrow> pending_semantic t semantic_threshold nearest)
      else [])"

subsection \<open>C5: the edges of one add_thought\<close>

text \<open>
  The example: a store and a graph that hold one thought \<open>a\<close> of session \<open>s\<close> with the vector
  \<open>[1, 0]\<close>, and a later thought \<open>b\<close> of the same session with the vector \<open>v\<close>.
\<close>

definition store_a :: store where
  "store_a = \<lparr>store_dim = 2, vector_backend = Numpy, sessions = [(''s'', None)],
      thoughts = [thought_row (mk_thought ''a'' 1000000 ''s'' [''x''] [1, 0])],
      vindex = [(''a'', [1, 0])]\<rparr>"

definition graph_a :: tgraph where
  "graph_a = \<lparr>g_nodes = [(''a'', ''s'', 1000000)], g_edges = []\<rparr>"

definition thought_b :: "real list \<Rightarrow> thought" where
  "thought_b v = mk_thought ''b'' 3000000 ''s'' [] v"

definition store_ab :: "real list \<Rightarrow> store" where
  \<comment> \<open>\<open>store_a\<close> once \<open>thought_b v\<close> is stored\<close>
  "store_ab v = store_a\<lparr>thoughts := thoughts store_a @ [thought_row (thought_b v)],
                        vindex := vindex store_a @ [(''b'', normalize_l2 (map to_float32 v))]\<rparr>"

lemma thought_row_sel [simp]:
  "r_id (thought_row t) = tid t" "r_timestamp_utc (thought_row t) = timestamp_utc t"
  "r_session_id (thought_row t) = session_id t" "r_category (thought_row t) = category t"
  "r_confidence (thought_row t) = confidence t" "r_tags_json (thought_row t) = tags t"
  "r_embedding_dim (thought_row t) = embedding_dim t"
  by (simp_all add: thought_row_def)

lemma mk_thought_sel [simp]:
  "tid (mk_thought i ts sess tgs v) = i" "timestamp_utc (mk_thought i ts sess tgs v) = ts"
  "session_id (mk_thought i ts sess tgs v) = sess" "tags (mk_thought i ts sess tgs v) = tgs"
  "embedding_vector (mk_thought i ts sess tgs v) = v" "embedding_dim (mk_thought i ts sess tgs v) = int (length v)"
  "category (mk_thought i ts sess tgs v) = ''reasoning''" "confidence (mk_thought i ts sess tgs v) = 8 / 10"
  by (simp_all add: mk_thought_def)

lemma mk_thought_valid:
  assumes "strip i = i" "strip sess = sess" "sess \<noteq> []" "map strip tgs = tgs" "v \<noteq> []"
  shows "valid_thought (mk_thought i ts sess tgs v)"
  by (rule valid_thoughtI) (use assms in \<open>simp_all add: mk_thought_def strip_def is_space_def\<close>)

lemma strip_plain [simp]: "strip ''a'' = ''a''" "strip ''b'' = ''b''" "strip ''s'' = ''s''" "strip ''x'' = ''x''"
  by (simp_all add: strip_def is_space_def)

lemma thought_b_sel [simp]:
  "tid (thought_b v) = ''b''" "timestamp_utc (thought_b v) = 3000000" "session_id (thought_b v) = ''s''"
  "tags (thought_b v) = []" "embedding_vector (thought_b v) = v" "embedding_dim (thought_b v) = int (length v)"
  "category (thought_b v) = ''reasoning''" "confidence (thought_b v) = 8 / 10"
  by (simp_all add: thought_b_def)

lemma thought_b_valid: "v \<noteq> [] \<Longrightarrow> valid_thought (thought_b v)"
  unfolding thought_b_def by (rule mk_thought_valid) simp_all

lemma persisted_sel [simp]:
  "tid (persisted t) = tid t" "session_id (persisted t) = session_id t"
  "timestamp_utc (persisted t) = timestamp_utc t"
  by (simp_all add: persisted_def)

lemma add_b:
  fixes v :: "real list"
  assumes "length v = 2"
  shows "ensure_stored None store_a (thought_b v) True = (store_ab v, Inr ())"
    and "link_temporal_successor no_failure
           (graph_a\<lparr>g_nodes := dict_set (g_nodes graph_a) ''b'' (''s'', 3000000)\<rparr>) (thought_b v)
         = (\<lparr>g_nodes = [(''a'', ''s'', 1000000), (''b'', ''s'', 3000000)],
             g_edges = [\<lparr>source_id = ''a'', target_id = ''b'', relation = ''temporal-successor'', weight = 1\<rparr>]\<rparr>,
            Inr ())"
    and "search_candidates (store_ab v) v 8 500 =
           Inr (sorted_desc snd [(''a'', dot [1, 0] (normalize_l2 (map to_float32 v))),
                                 (''b'', dot (normalize_l2 (map to_float32 v)) (normalize_l2 (map to_float32 v)))])"
proof -
  have g: "get_thought_by_id store_a ''b'' = Inr None"
    by (simp add: get_thought_by_id_def store_a_def)
  have bs: "batch_store None store_a [thought_b v] = (store_ab v, Inr [thought_b v])"
    using assms(1)
    by (simp add: batch_store_def store_a_def store_ab_def index_upsert_def insert_session_def upsert_row_def)
  show "ensure_stored None store_a (thought_b v) True = (store_ab v, Inr ())"
    by (simp add: ensure_stored_def g store_thought_def bs)
  show "link_temporal_successor no_failure
           (graph_a\<lparr>g_nodes := dict_set (g_nodes graph_a) ''b'' (''s'', 3000000)\<rparr>) (thought_b v)
         = (\<lparr>g_nodes = [(''a'', ''s'', 1000000), (''b'', ''s'', 3000000)],
             g_edges = [\<lparr>source_id = ''a'', target_id = ''b'', relation = ''temporal-successor'', weight = 1\<rparr>]\<rparr>,
            Inr ())"
    by (simp add: link_temporal_successor_def graph_a_def link_def link_many_def no_failure_def)
  show "search_candidates (store_ab v) v 8 500 =
           Inr (sorted_desc snd [(''a'', dot [1, 0] (normalize_l2 (map to_float32 v))),
                                 (''b'', dot (normalize_l2 (map to_float32 v)) (normalize_l2 (map to_float32 v)))])"
    using assms(1) by (simp add: search_candidates_def index_search_def store_ab_def store_a_def)
qed

lemma nearest_b:
  fixes v :: "real list" and x :: real
  assumes "length v = 2" "dot [1, 0] (normalize_l2 (map to_float32 v)) = x"
    "dot (normalize_l2 (map to_float32 v)) (normalize_l2 (map to_float32 v)) = 1" "x \<le> 1"
  shows "\<exists>ta tb ra rb. semantic_search (store_ab v) 4000000 v no_filters 8 1 500 =
           Inr (sorted_desc score
             [\<lparr>thought = ta, semantic_score = x, recency_score = ra, score = x\<rparr>,
              \<lparr>thought = tb, semantic_score = 1, recency_score = rb, score = 1\<rparr>]) \<and> tid ta = ''a'' \<and> tid tb = ''b''"
proof -
  let ?a = "mk_thought ''a'' 1000000 ''s'' [''x''] [1, 0]"
  let ?b = "thought_b v"
  let ?cs = "sorted_desc snd [(''a'', x), (''b'', 1::real)]"
  have c: "search_candidates (store_ab v) v 8 500 = Inr ?cs"
    using add_b(3) [OF assms(1)] assms(2,3) by simp
  have cs: "?cs = (if x < 1 then [(''b'', 1), (''a'', x)] else [(''a'', x), (''b'', 1)])"
    using assms(4) by (auto simp: sorted_desc_def)
  have d: "map_of (dict_of ?cs) ''a'' = Some x" "map_of (dict_of ?cs) ''b'' = Some 1"
    "map fst (dict_of ?cs) = (if x < 1 then [''b'', ''a''] else [''a'', ''b''])"
    unfolding cs by (simp_all add: dict_of_def)
  have r: "surviving_rows (store_ab v) no_filters ?cs = [thought_row ?a, thought_row ?b]"
    by (simp add: surviving_rows_def d fetch_rows_by_ids_def store_ab_def store_a_def row_matches_filters_def
        sql_where_def tags_match_def no_filters_def)
  have ra: "row_to_thought (thought_row ?a) = Inr (persisted ?a)"
    by (rule row_to_thought_row, rule mk_thought_valid) simp_all
  have rb: "row_to_thought (thought_row ?b) = Inr (persisted ?b)"
    by (rule row_to_thought_row, rule thought_b_valid) (use assms(1) in auto)
  have sc: "scored_rows (store_ab v) 4000000 no_filters 1 ?cs =
     Inr [\<lparr>thought = persisted ?a, semantic_score = x,
            recency_score = 1 - age_of 4000000 1000000 / max_age 4000000 [thought_row ?a, thought_row ?b], score = x\<rparr>,
          \<lparr>thought = persisted ?b, semantic_score = 1,
            recency_score = 1 - age_of 4000000 3000000 / max_age 4000000 [thought_row ?a, thought_row ?b], score = 1\<rparr>]"
    unfolding scored_rows_def r Let_def
    by (simp add: score_row_def ra rb d)
  have ne: "?cs \<noteq> []" by (simp add: cs)
  have eq: "semantic_search (store_ab v) 4000000 v no_filters 8 1 500 =
     Inr (sorted_desc score [\<lparr>thought = persisted ?a, semantic_score = x,
            recency_score = 1 - age_of 4000000 1000000 / max_age 4000000 [thought_row ?a, thought_row ?b], score = x\<rparr>,
          \<lparr>thought = persisted ?b, semantic_score = 1,
            recency_score = 1 - age_of 4000000 3000000 / max_age 4000000 [thought_row ?a, thought_row ?b], score = 1\<rparr>])"
    unfolding semantic_search_def c
    by (simp add: ne r sc)
  have "tid (persisted ?a) = ''a''" "tid (persisted ?b) = ''b''" by simp_all
  with eq show ?thesis by blast
qed

definition link_raises :: "(edge \<Rightarrow> bool) \<Rightarrow> edge \<Rightarrow> bool" where
  \<comment> \<open>the edges for which \<open>link\<close> raises: an empty end, a negative weight, or a failure of the
      database at the insert\<close>
  "link_raises fails e \<longleftrightarrow> source_id e = [] \<or> target_id e = [] \<or> weight e < 0 \<or> fails e"

lemma link_exact:
  assumes "src \<noteq> tgt"
  shows "link fails g src tgt rel w False =
           (if link_raises fails \<lparr>source_id = src, target_id = tgt, relation = rel, weight = w\<rparr>
            then (g, Inl (if src = [] \<or> tgt = [] \<or> w < 0 then ValueError else DatabaseError))
            else (g\<lparr>g_edges := g_edges g @ [\<lparr>source_id = src, target_id = tgt, relation = rel, weight = w\<rparr>]\<rparr>,
                  Inr ()))"
  using assms by (simp add: link_def link_many_def link_raises_def)

lemma link_neighbors_exact:
  assumes "link_neighbors fails g t thr items = (g', r)"
  shows "g_nodes g' = g_nodes g \<and>
         g_edges g' = g_edges g @ takeWhile (\<lambda>e. \<not> link_raises fails e) (pending_semantic t thr items) \<and>
         (r = Inr () \<longleftrightarrow> (\<forall>e \<in> set (pending_semantic t thr items). \<not> link_raises fails e))"
  using assms
proof (induction items arbitrary: g)
  case Nil
  then show ?case by (auto simp: pending_semantic_def)
next
  case (Cons item items)
  show ?case
  proof (cases "tid (thought item) = tid t \<or> semantic_score item < thr")
    case True
    with Cons.prems have "link_neighbors fails g t thr items = (g', r)" by (auto split: if_splits)
    from Cons.IH [OF this] True show ?thesis by (auto simp: pending_semantic_def)
  next
    case False
    let ?e = "\<lparr>source_id = tid (thought item), target_id = tid t, relation = ''semantic-similarity'',
                   weight = semantic_score item\<rparr>"
    have p: "pending_semantic t thr (item # items) = ?e # pending_semantic t thr items"
      using False by (simp add: pending_semantic_def)
    from False have ne: "tid (thought item) \<noteq> tid t" by simp
    note l = link_exact [OF ne, of fails g "''semantic-similarity''" "semantic_score item"]
    show ?thesis
    proof (cases "link_raises fails ?e")
      case True
      with Cons.prems False l have "g' = g" "r \<noteq> Inr ()" by auto
      with True show ?thesis unfolding p by simp
    next
      case ok: False
      let ?g1 = "g\<lparr>g_edges := g_edges g @ [?e]\<rparr>"
      from Cons.prems False l ok have "link_neighbors fails ?g1 t thr items = (g', r)" by simp
      from Cons.IH [OF this] ok show ?thesis unfolding p by simp
    qed
  qed
qed

lemma link_temporal_exact:
  assumes "link_temporal_successor fails g t = (g', r)"
  shows "g_nodes g' = g_nodes g \<and>
         g_edges g' = g_edges g @ takeWhile (\<lambda>e. \<not> link_raises fails e) (pending_temporal g t) \<and>
         (r = Inr () \<longleftrightarrow> (\<forall>e \<in> set (pending_temporal g t). \<not> link_raises fails e))"
proof (cases "sort_key (\<lambda>n. - snd (snd n))
             (filter (\<lambda>n. fst (snd n) = session_id t \<and> fst n \<noteq> tid t \<and> snd (snd n) \<le> timestamp_utc t)
                (g_nodes g))")
  case Nil
  with assms show ?thesis by (auto simp: link_temporal_successor_def pending_temporal_def)
next
  case (Cons n ns)
  then have "n \<in> set (sort_key (\<lambda>n. - snd (snd n))
             (filter (\<lambda>n. fst (snd n) = session_id t \<and> fst n \<noteq> tid t \<and> snd (snd n) \<le> timestamp_utc t)
                (g_nodes g)))" by simp
  then have ne: "fst n \<noteq> tid t" by simp
  let ?e = "\<lparr>source_id = fst n, target_id = tid t, relation = ''temporal-successor'', weight = 1\<rparr>"
  from assms Cons have l: "link fails g (fst n) (tid t) ''temporal-successor'' 1 False = (g', r)"
    by (simp add: link_temporal_successor_def)
  have p: "pending_temporal g t = [?e]"
    using Cons by (simp add: pending_temporal_def)
  show ?thesis
  proof (cases "link_raises fails ?e")
    case True
    with l link_exact [OF ne, of fails g "''temporal-successor''" 1] have "g' = g" "r \<noteq> Inr ()" by auto
    with True show ?thesis unfolding p by simp
  next
    case False
    with l link_exact [OF ne, of fails g "''temporal-successor''" 1]
    have "g' = g\<lparr>g_edges := g_edges g @ [?e]\<rparr>" "r = Inr ()" by auto
    with False show ?thesis unfolding p by simp
  qed
qed

lemma link_semantic_exact:
  assumes "link_semantic fails s g now t n thr = (g', r)"
  defines "ps \<equiv> (if n > 0
      then (case semantic_search s now (embedding_vector t) no_filters (n + 5) 1 500 of
              Inl e \<Rightarrow> []
            | Inr nearest \<Rightarrow> pending_semantic t thr nearest)
      else [])"
  shows "g_edges g' = g_edges g @ takeWhile (\<lambda>e. \<not> link_raises fails e) ps \<and>
         (r = Inr () \<longrightarrow> (\<forall>e \<in> set ps. \<not> link_raises fails e)) \<and>
         ((\<exists>e \<in> set ps. link_raises fails e) \<longrightarrow> r \<noteq> Inr ())"
proof (cases "n > 0")
  case False
  with assms(1) show ?thesis by (simp add: link_semantic_def ps_def)
next
  case True
  show ?thesis
  proof (cases "semantic_search s now (embedding_vector t) no_filters (n + 5) 1 500")
    case (Inl e)
    with True assms(1) show ?thesis by (simp add: link_semantic_def ps_def)
  next
    case (Inr nearest)
    with True assms(1) have "link_neighbors fails g t thr nearest = (g', r)" by (simp add: link_semantic_def)
    from link_neighbors_exact [OF this] Inr True show ?thesis by (simp add: ps_def)
  qed
qed

lemma takeWhile_append_all: "\<forall>x \<in> set xs. P x \<Longrightarrow> takeWhile P (xs @ ys) = xs @ takeWhile P ys"
  by (induction xs) auto

lemma takeWhile_append_stop: "\<exists>x \<in> set xs. \<not> P x \<Longrightarrow> takeWhile P (xs @ ys) = takeWhile P xs"
  by (induction xs) auto

lemma normalize_units [simp]:
  "normalize_l2 [- 1, 0] = [- 1, 0]" "normalize_l2 [1, 0] = [1, 0]"
  by (simp_all add: normalize_l2_def l2_norm_def)

lemma add_b_refused:
  "add_thought None no_failure store_a graph_a 4000000 (thought_b [- 1, 0]) True 3 (- 1) True
     = ((store_ab [- 1, 0],
         \<lparr>g_nodes = [(''a'', ''s'', 1000000), (''b'', ''s'', 3000000)],
          g_edges = [\<lparr>source_id = ''a'', target_id = ''b'', relation = ''temporal-successor'', weight = 1\<rparr>]\<rparr>),
        Inl ValueError)"
  "pending_edges (store_ab [- 1, 0]) graph_a 4000000 (thought_b [- 1, 0]) 3 (- 1) True
     = [\<lparr>source_id = ''a'', target_id = ''b'', relation = ''temporal-successor'', weight = 1\<rparr>,
        \<lparr>source_id = ''a'', target_id = ''b'', relation = ''semantic-similarity'', weight = - 1\<rparr>]"
proof -
  let ?v = "[- 1, 0] :: real list"
  let ?g2 = "\<lparr>g_nodes = [(''a'', ''s'', 1000000), (''b'', ''s'', 3000000)],
             g_edges = [\<lparr>source_id = ''a'', target_id = ''b'', relation = ''temporal-successor'', weight = 1\<rparr>]\<rparr>"
  have len: "length ?v = 2" by simp
  from nearest_b [OF len, of "- 1"] obtain ta tb ra rb where
    n: "semantic_search (store_ab ?v) 4000000 ?v no_filters 8 1 500 =
           Inr (sorted_desc score
             [\<lparr>thought = ta, semantic_score = - 1, recency_score = ra, score = - 1\<rparr>,
              \<lparr>thought = tb, semantic_score = 1, recency_score = rb, score = 1\<rparr>])"
    and t: "tid ta = ''a''" "tid tb = ''b''"
    by (auto simp: dot_def)
  have so: "sorted_desc score
             [\<lparr>thought = ta, semantic_score = - 1, recency_score = ra, score = - 1\<rparr>,
              \<lparr>thought = tb, semantic_score = 1, recency_score = rb, score = 1\<rparr>]
          = [\<lparr>thought = tb, semantic_score = 1, recency_score = rb, score = 1\<rparr>,
             \<lparr>thought = ta, semantic_score = - 1, recency_score = ra, score = - 1\<rparr>]"
    by (simp add: sorted_desc_def)
  have ls: "link_semantic no_failure (store_ab ?v) ?g2 4000000 (thought_b ?v) 3 (- 1) = (?g2, Inl ValueError)"
    by (simp add: link_semantic_def n so t link_def)
  show "add_thought None no_failure store_a graph_a 4000000 (thought_b ?v) True 3 (- 1) True
           = ((store_ab ?v, ?g2), Inl ValueError)"
    by (simp add: add_thought_def add_b(1) [OF len] add_b(2) [OF len] ls)
  have pt: "pending_temporal (graph_a\<lparr>g_nodes := dict_set (g_nodes graph_a) ''b'' (''s'', 3000000)\<rparr>) (thought_b ?v)
            = [\<lparr>source_id = ''a'', target_id = ''b'', relation = ''temporal-successor'', weight = 1\<rparr>]"
    by (simp add: pending_temporal_def graph_a_def)
  show "pending_edges (store_ab ?v) graph_a 4000000 (thought_b ?v) 3 (- 1) True
     = [\<lparr>source_id = ''a'', target_id = ''b'', relation = ''temporal-successor'', weight = 1\<rparr>,
        \<lparr>source_id = ''a'', target_id = ''b'', relation = ''semantic-similarity'', weight = - 1\<rparr>]"
    by (simp add: pending_edges_def pt n so pending_semantic_def t)
qed

lemma add_b_linked:
  "add_thought None no_failure store_a graph_a 4000000 (thought_b [1, 0]) True 3 (4 / 5) True
     = ((store_ab [1, 0],
         \<lparr>g_nodes = [(''a'', ''s'', 1000000), (''b'', ''s'', 3000000)],
          g_edges = [\<lparr>source_id = ''a'', target_id = ''b'', relation = ''temporal-successor'', weight = 1\<rparr>,
                     \<lparr>source_id = ''a'', target_id = ''b'', relation = ''semantic-similarity'', weight = 1\<rparr>]\<rparr>),
        Inr (thought_b [1, 0]))"
proof -
  let ?v = "[1, 0] :: real list"
  let ?g2 = "\<lparr>g_nodes = [(''a'', ''s'', 1000000), (''b'', ''s'', 3000000)],
             g_edges = [\<lparr>source_id = ''a'', target_id = ''b'', relation = ''temporal-successor'', weight = 1\<rparr>]\<rparr>"
  let ?g3 = "\<lparr>g_nodes = [(''a'', ''s'', 1000000), (''b'', ''s'', 3000000)],
             g_edges = [\<lparr>source_id = ''a'', target_id = ''b'', relation = ''temporal-successor'', weight = 1\<rparr>,
                        \<lparr>source_id = ''a'', target_id = ''b'', relation = ''semantic-similarity'', weight = 1\<rparr>]\<rparr>"
  have len: "length ?v = 2" by simp
  from nearest_b [OF len, of 1] obtain ta tb ra rb where
    n: "semantic_search (store_ab ?v) 4000000 ?v no_filters 8 1 500 =
           Inr (sorted_desc score
             [\<lparr>thought = ta, semantic_score = 1, recency_score = ra, score = 1\<rparr>,
              \<lparr>thought = tb, semantic_score = 1, recency_score = rb, score = 1\<rparr>])"
    and t: "tid ta = ''a''" "tid tb = ''b''"
    by (auto simp: dot_def)
  have so: "sorted_desc score
             [\<lparr>thought = ta, semantic_score = 1, recency_score = ra, score = 1\<rparr>,
              \<lparr>thought = tb, semantic_score = 1, recency_score = rb, score = 1\<rparr>]
          = [\<lparr>thought = ta, semantic_score = 1, recency_score = ra, score = 1\<rparr>,
             \<lparr>thought = tb, semantic_score = 1, recency_score = rb, score = 1\<rparr>]"
    by (simp add: sorted_desc_def)
  have ls: "link_semantic no_failure (store_ab ?v) ?g2 4000000 (thought_b ?v) 3 (4 / 5) = (?g3, Inr ())"
    by (simp add: link_semantic_def n so t link_def link_many_def no_failure_def)
  show ?thesis
    by (simp add: add_thought_def add_b(1) [OF len] add_b(2) [OF len] ls)
qed

text \<open>
  Claim C5 says that the edges of one \<open>add_thought\<close> commit together. They do not:
  \<open>add_thought\<close> calls \<open>link\<close> edge by edge and every \<open>link\<close> commits its own transaction. With
  \<open>semantic_threshold = -1.0\<close>, the thought \<open>b\<close> with the vector \<open>[-1, 0]\<close> gets its
  temporal-successor edge from \<open>a\<close>; then \<open>a\<close>, with the score \<open>-1\<close>, passes the threshold, and
  \<open>link\<close> raises for the negative weight. The call fails and the first edge is in the table.
\<close>

theorem add_thought_not_atomic:
  "snd (add_thought None no_failure store_a graph_a 4000000 (thought_b [- 1, 0]) True 3 (- 1) True)
     = Inl ValueError \<and>
   g_edges (snd (fst (add_thought None no_failure store_a graph_a 4000000 (thought_b [- 1, 0]) True 3 (- 1) True)))
     = [\<lparr>source_id = ''a'', target_id = ''b'', relation = ''temporal-successor'', weight = 1\<rparr>] \<and>
   pending_edges (store_ab [- 1, 0]) graph_a 4000000 (thought_b [- 1, 0]) 3 (- 1) True
     = [\<lparr>source_id = ''a'', target_id = ''b'', relation = ''temporal-successor'', weight = 1\<rparr>,
        \<lparr>source_id = ''a'', target_id = ''b'', relation = ''semantic-similarity'', weight = - 1\<rparr>]"
  using add_b_refused by simp

text \<open>
  Claim C5, amended. The edges of one \<open>add_thought\<close> are committed one by one, each in a
  transaction of its own and in the order in which the call asks for them: the
  temporal-successor edge first, then the semantic-similarity edges in the order of the search
  result. If the thought cannot be stored, the call raises and the graph is unchanged. Otherwise
  the edges the call leaves in the table are exactly the pending edges before the first one for
  which \<open>link\<close> raises: all of them when the call returns, and when it raises at an edge, those
  committed before it, which are not rolled back.
\<close>

theorem add_thought_edges_in_order:
  assumes "add_thought store_fault fails s g now t store_if_missing n threshold temporal_link = ((s', g'), r)"
  shows "((\<exists>err. snd (ensure_stored store_fault s t store_if_missing) = Inl err) \<longrightarrow>
            g' = g \<and> (\<exists>err. r = Inl err)) \<and>
         (snd (ensure_stored store_fault s t store_if_missing) = Inr () \<longrightarrow>
            g_edges g' = g_edges g @ takeWhile (\<lambda>e. \<not> link_raises fails e)
                                       (pending_edges s' g now t n threshold temporal_link) \<and>
            ((\<exists>e \<in> set (pending_edges s' g now t n threshold temporal_link). link_raises fails e) \<longrightarrow>
               (\<exists>err. r = Inl err))) \<and>
         (\<forall>x. r = Inr x \<longrightarrow> x = t \<and>
            g_edges g' = g_edges g @ pending_edges s' g now t n threshold temporal_link)"
proof -
  let ?ok = "\<lambda>e. \<not> link_raises fails e"
  let ?g1 = "g\<lparr>g_nodes := dict_set (g_nodes g) (tid t) (session_id t, timestamp_utc t)\<rparr>"
  define pt where "pt = (if temporal_link then pending_temporal ?g1 t else [])"
  obtain s1 r1 where e: "ensure_stored store_fault s t store_if_missing = (s1, r1)" by fastforce
  have s': "s' = s1" using assms e
    by (cases r1) (auto simp: add_thought_def Let_def split: prod.splits sum.splits)
  define ps where "ps = (if n > 0
      then (case semantic_search s1 now (embedding_vector t) no_filters (n + 5) 1 500 of
              Inl e \<Rightarrow> []
            | Inr nearest \<Rightarrow> pending_semantic t threshold nearest)
      else [])"
  have pe: "pending_edges s' g now t n threshold temporal_link = pt @ ps"
    by (simp add: pending_edges_def s' pt_def ps_def)
  show ?thesis
  proof (cases r1)
    case (Inl err)
    with assms e have "g' = g" "r = Inl err" by (simp_all add: add_thought_def)
    with e Inl show ?thesis by simp
  next
    case (Inr u)
    then have st: "snd (ensure_stored store_fault s t store_if_missing) = Inr ()" using e by simp
    obtain g2 r2 where l: "(if temporal_link then link_temporal_successor fails ?g1 t else (?g1, Inr ())) = (g2, r2)"
      by fastforce
    have t: "g_edges g2 = g_edges g @ takeWhile ?ok pt \<and> (r2 = Inr () \<longleftrightarrow> (\<forall>e \<in> set pt. ?ok e))"
    proof (cases temporal_link)
      case True
      with l have "link_temporal_successor fails ?g1 t = (g2, r2)" by simp
      from link_temporal_exact [OF this] True show ?thesis by (simp add: pt_def)
    next
      case False
      with l show ?thesis by (auto simp: pt_def)
    qed
    show ?thesis
    proof (cases r2)
      case (Inl err)
      with assms e Inr l have g': "g' = g2" and r: "r = Inl err" by (simp_all add: add_thought_def Let_def)
      from t Inl have "\<exists>e \<in> set pt. \<not> ?ok e" by auto
      then have "takeWhile ?ok (pt @ ps) = takeWhile ?ok pt" by (rule takeWhile_append_stop)
      with t g' have "g_edges g' = g_edges g @ takeWhile ?ok (pt @ ps)" by simp
      with r st show ?thesis unfolding pe by simp
    next
      case u2: (Inr u2)
      with t have all: "\<forall>e \<in> set pt. ?ok e" and g2: "g_edges g2 = g_edges g @ pt"
        by (auto simp: takeWhile_eq_all_conv [THEN iffD2])
      obtain g3 r3 where m: "link_semantic fails s1 g2 now t n threshold = (g3, r3)" by fastforce
      note k = link_semantic_exact [OF m, folded ps_def]
      have g': "g' = g3" using assms e Inr l u2 m
        by (cases r3) (simp_all add: add_thought_def Let_def)
      have r: "r = (case r3 of Inl err \<Rightarrow> Inl err | Inr _ \<Rightarrow> Inr t)" using assms e Inr l u2 m
        by (cases r3) (simp_all add: add_thought_def Let_def)
      have tw: "takeWhile ?ok (pt @ ps) = pt @ takeWhile ?ok ps"
        using all by (rule takeWhile_append_all)
      have 1: "g_edges g' = g_edges g @ takeWhile ?ok (pt @ ps)"
        unfolding tw using k g2 g' by simp
      have 2: "(\<exists>e \<in> set (pt @ ps). link_raises fails e) \<longrightarrow> (\<exists>err. r = Inl err)"
      proof
        assume "\<exists>e \<in> set (pt @ ps). link_raises fails e"
        with all have "\<exists>e \<in> set ps. link_raises fails e" by auto
        with k have "r3 \<noteq> Inr ()" by blast
        then show "\<exists>err. r = Inl err" using r by (cases r3) auto
      qed
      have 3: "\<forall>x. r = Inr x \<longrightarrow> x = t \<and> g_edges g' = g_edges g @ pt @ ps"
      proof (intro allI impI)
        fix x assume rx: "r = Inr x"
        have "r3 = Inr () \<and> x = t"
        proof (cases r3)
          case (Inl err)
          with r rx show ?thesis by simp
        next
          case (Inr u3)
          with r rx show ?thesis by simp
        qed
        then have "r3 = Inr ()" "x = t" by simp_all
        with k have "\<forall>e \<in> set ps. ?ok e" by blast
        then have "takeWhile ?ok ps = ps" by (simp add: takeWhile_eq_all_conv [THEN iffD2])
        with 1 tw \<open>x = t\<close> show "x = t \<and> g_edges g' = g_edges g @ pt @ ps" by simp
      qed
      from 1 2 3 st show ?thesis unfolding pe by simp
    qed
  qed
qed


theorem add_thought_edges_in_order_witness:
  "snd (ensure_stored None store_a (thought_b [- 1, 0]) True) = Inr () \<and>
   snd (add_thought None no_failure store_a graph_a 4000000 (thought_b [- 1, 0]) True 3 (- 1) True)
     = Inl ValueError \<and>
   g_edges (snd (fst (add_thought None no_failure store_a graph_a 4000000 (thought_b [- 1, 0]) True 3 (- 1) True)))
     = g_edges graph_a @ takeWhile (\<lambda>e. \<not> link_raises no_failure e)
         (pending_edges (store_ab [- 1, 0]) graph_a 4000000 (thought_b [- 1, 0]) 3 (- 1) True) \<and>
   takeWhile (\<lambda>e. \<not> link_raises no_failure e)
         (pending_edges (store_ab [- 1, 0]) graph_a 4000000 (thought_b [- 1, 0]) 3 (- 1) True)
     = [\<lparr>source_id = ''a'', target_id = ''b'', relation = ''temporal-successor'', weight = 1\<rparr>] \<and>
   snd (add_thought None no_failure store_a graph_a 4000000 (thought_b [1, 0]) True 3 (4 / 5) True)
     = Inr (thought_b [1, 0]) \<and>
   g_edges (snd (fst (add_thought None no_failure store_a graph_a 4000000 (thought_b [1, 0]) True 3 (4 / 5) True)))
     = g_edges graph_a @ pending_edges (store_ab [1, 0]) graph_a 4000000 (thought_b [1, 0]) 3 (4 / 5) True \<and>
   g_edges (snd (fst (add_thought None no_failure store_a graph_a 4000000 (thought_b [1, 0]) True 3 (4 / 5) True)))
     = [\<lparr>source_id = ''a'', target_id = ''b'', relation = ''temporal-successor'', weight = 1\<rparr>,
        \<lparr>source_id = ''a'', target_id = ''b'', relation = ''semantic-similarity'', weight = 1\<rparr>]"
proof -
  have st: "snd (ensure_stored None store_a (thought_b [- 1, 0]) True) = Inr ()"
    using add_b(1) [of "[- 1, 0]"] by simp
  from add_thought_edges_in_order [OF add_b_refused(1)] st
  have 1: "g_edges \<lparr>g_nodes = [(''a'', ''s'', 1000000), (''b'', ''s'', 3000000)],
          g_edges = [\<lparr>source_id = ''a'', target_id = ''b'', relation = ''temporal-successor'', weight = 1\<rparr>]\<rparr>
        = g_edges graph_a @ takeWhile (\<lambda>e. \<not> link_raises no_failure e)
         (pending_edges (store_ab [- 1, 0]) graph_a 4000000 (thought_b [- 1, 0]) 3 (- 1) True)"
    by blast
  have 2: "takeWhile (\<lambda>e. \<not> link_raises no_failure e)
         (pending_edges (store_ab [- 1, 0]) graph_a 4000000 (thought_b [- 1, 0]) 3 (- 1) True)
     = [\<lparr>source_id = ''a'', target_id = ''b'', relation = ''temporal-successor'', weight = 1\<rparr>]"
    unfolding add_b_refused(2) by (simp add: link_raises_def no_failure_def)
  from add_thought_edges_in_order [OF add_b_linked]
  have 3: "g_edges \<lparr>g_nodes = [(''a'', ''s'', 1000000), (''b'', ''s'', 3000000)],
          g_edges = [\<lparr>source_id = ''a'', target_id = ''b'', relation = ''temporal-successor'', weight = 1\<rparr>,
                     \<lparr>source_id = ''a'', target_id = ''b'', relation = ''semantic-similarity'', weight = 1\<rparr>]\<rparr>
        = g_edges graph_a @ pending_edges (store_ab [1, 0]) graph_a 4000000 (thought_b [1, 0]) 3 (4 / 5) True"
    by blast
  from st 1 2 3 show ?thesis
    by (simp add: add_b_refused(1) add_b_linked)
qed

subsection \<open>recall_from_prior_sessions (store.py)\<close>










lemma dict_set_entries: "set (dict_set d k v) \<subseteq> insert (k, v) (set d)"
  by (induction d k v rule: dict_set.induct) auto


lemma dict_of_entries: "set (dict_of kvs) \<subseteq> set kvs"
proof -
  have "set (foldl (\<lambda>d (k, v). dict_set d k v) d kvs) \<subseteq> set d \<union> set kvs" for d
  proof (induction kvs arbitrary: d)
    case Nil
    then show ?case by simp
  next
    case (Cons kv kvs)
    obtain k v where kv: "kv = (k, v)" by (cases kv)
    from Cons.IH [of "dict_set d k v"] dict_set_entries [of d k v] show ?case
      unfolding kv by auto
  qed
  from this [of "[]"] show ?thesis by (simp add: dict_of_def)
qed


subsection \<open>C6: the merge of recall_from_prior_sessions\<close>


















text \<open>
  A store in which the expansion adds an entry: \<open>semantic_search\<close> is asked for at most
  \<open>max(30, limit * 4)\<close> items, so a thought of the lineage is outside its result only in a
  store of more than thirty thoughts. \<open>store_deep\<close> holds thirty-one thoughts with the ids
  \<open>a\<close>, \<open>aa\<close>, \<open>aaa\<close>, ...: the first and the last in session \<open>root\<close>, the others in a session
  \<open>other\<close>; the first with the vector \<open>[1, 0]\<close>, the others with \<open>[0, 1]\<close>. The graph has one
  edge, from the first thought to the last.
\<close>

definition idn :: "nat \<Rightarrow> string" where
  "idn i = replicate (Suc i) CHR ''a''"

definition deep_session :: "nat \<Rightarrow> string" where
  "deep_session i = (if i = 0 \<or> i = 30 then ''root'' else ''other'')"

definition deep_vector :: "nat \<Rightarrow> real list" where
  "deep_vector i = (if i = 0 then [1, 0] else [0, 1])"

definition deep_thought :: "nat \<Rightarrow> thought" where
  "deep_thought i = mk_thought (idn i) 1000000 (deep_session i) [] (deep_vector i)"





lemma idn_eq [simp]: "idn i = idn j \<longleftrightarrow> i = j"
  by (simp add: idn_def)



lemma strip_idn [simp]: "strip (idn i) = idn i"
proof -
  have rv: "rev (idn i) = idn i" by (simp add: idn_def replicate_append_same)
  have dw: "dropWhile is_space (idn i) = idn i" by (simp add: idn_def is_space_def)
  show ?thesis by (simp add: strip_def dw rv)
qed








lemma deep_sel [simp]:
  "r_id (thought_row (deep_thought i)) = idn i"
  "r_timestamp_utc (thought_row (deep_thought i)) = 1000000"
  "tid (deep_thought i) = idn i"
  "timestamp_utc (deep_thought i) = 1000000"
  "session_id (deep_thought i) = deep_session i"
  "session_id (persisted (deep_thought i)) = deep_session i"
  "tid (persisted (deep_thought i)) = idn i"
  by (simp_all add: deep_thought_def)














end
